theory Spec2Isabelle
  imports Main
begin

section \<open>The orchestrator of the editor extension\<close>

text \<open>
  The extension's entry file (class \<open>ICIE\<close>, class \<open>Directory\<close> and the helpers
  \<open>choice\<close>, \<open>inputbox\<close>, \<open>unwrap\<close>) is embedded below. Its methods are asynchronous
  and talk to collaborators that are imported from other modules (\<open>afs\<close>, \<open>ci\<close>,
  \<open>conf\<close>, \<open>manifest\<close>, the editor API, \<open>os\<close>, \<open>Math.random\<close>). Every call to a
  collaborator is recorded as an \<open>event\<close>, in the order in which the code issues it; what
  the collaborator answers is a parameter (\<open>env\<close>): an arbitrary function of the history of
  events up to and including the call. Calls to \<open>console.log\<close> change no control flow
  and are left out, as are \<open>activate\<close>, which binds the four commands to the methods
  below, and \<open>launch\<close>, which places the cursor in the editor.
\<close>

subsection \<open>Data\<close>

text \<open>Values a JavaScript \<open>throw\<close> or a rejected promise can carry.\<close>

datatype error =
    ThrowString string  \<comment> \<open>\<open>throw "..."\<close> and \<open>Promise.reject('...')\<close>\<close>
  | ThrowError string   \<comment> \<open>\<open>throw new Error("...")\<close>\<close>
  | Rejection string    \<comment> \<open>a rejection that comes out of a collaborator\<close>

record stats =
  mtime :: int  \<comment> \<open>the \<open>Date\<close> compared through its numeric value (milliseconds)\<close>

record manifest =
  task_url :: string

record position =
  row :: int
  column :: int

record template =
  path :: string
  start :: position

record config =
  template :: template

record auth_request =
  domain :: string

record auth_response =
  username :: string
  password :: string

text \<open>
  The options object handed to \<open>vscode.window.showInputBox\<close>. The code only ever sets
  \<open>prompt\<close>; the editor's \<open>password\<close> option (mask the typed input) is \<open>False\<close> when
  the property is not set.
\<close>

record input_box_options =
  opt_prompt :: string
  opt_password :: bool

text \<open>
  A finite IEEE 754 double that is not negative, as the value \<open>significand * 2 ^ binary_exponent\<close>
  with a significand of at most 53 bits; what \<open>Math.random()\<close> returns is such a number.
\<close>

record double =
  significand :: nat
  binary_exponent :: int

datatype event =
    EvSaveAll                          \<comment> \<open>\<open>vscode.workspace.saveAll(false)\<close>\<close>
  | EvStat string                      \<comment> \<open>\<open>afs.stat(path)\<close>\<close>
  | EvExists string                    \<comment> \<open>\<open>afs.exists(path)\<close>\<close>
  | EvMkdir string                     \<comment> \<open>\<open>afs.mkdir(path)\<close>\<close>
  | EvCopy string string               \<comment> \<open>\<open>afs.copy(from, to)\<close>\<close>
  | EvCiBuild string                   \<comment> \<open>\<open>ci.build(source)\<close>\<close>
  | EvCiTest string string             \<comment> \<open>\<open>ci.test(executable, testdir)\<close>\<close>
  | EvCiInit string string             \<comment> \<open>\<open>ci.init(task_url, project_dir, _)\<close>\<close>
  | EvCiSubmit string string           \<comment> \<open>\<open>ci.submit(source, task_url, _)\<close>\<close>
  | EvAuthResponse auth_response       \<comment> \<open>the callback's answer handed back to \<open>ci\<close>\<close>
  | EvMnfstLoad string                 \<comment> \<open>\<open>mnfst.load(path)\<close>\<close>
  | EvMnfstSave string manifest        \<comment> \<open>\<open>mnfst.save(path, manifest)\<close>\<close>
  | EvConfLoad                         \<comment> \<open>\<open>conf.load()\<close>\<close>
  | EvShowInputBox input_box_options   \<comment> \<open>\<open>vscode.window.showInputBox(options)\<close>\<close>
  | EvMathRandom                       \<comment> \<open>\<open>Math.random()\<close>\<close>
  | EvOpenFolder string bool           \<comment> \<open>\<open>executeCommand('vscode.openFolder', uri, flag)\<close>\<close>

text \<open>
  The collaborators. Each answer may depend on everything that happened before; the
  history it receives ends with the event of the call itself, so the arguments of the
  call are part of it. The file operations, the worker's commands, the manifest and the
  configuration may reject; the editor's \<open>saveAll\<close> and \<open>showInputBox\<close> resolve, the
  latter to \<open>undefined\<close> when the user dismisses the box.
\<close>

record env =
  os_homedir :: string
  workspace_rootPath :: "string option"  \<comment> \<open>\<open>None\<close> is \<open>undefined\<close>\<close>
  saveAll_reply :: "event list \<Rightarrow> bool"
  showInputBox_reply :: "event list \<Rightarrow> string option"  \<comment> \<open>\<open>None\<close> is \<open>undefined\<close>\<close>
  random_reply :: "event list \<Rightarrow> double"
  stat_reply :: "event list \<Rightarrow> error + stats"
  exists_reply :: "event list \<Rightarrow> error + bool"
  mkdir_reply :: "event list \<Rightarrow> error + unit"
  copy_reply :: "event list \<Rightarrow> error + unit"
  build_reply :: "event list \<Rightarrow> error + unit"
  test_reply :: "event list \<Rightarrow> error + bool"
  init_authreq :: "event list \<Rightarrow> auth_request option"
  init_reply :: "event list \<Rightarrow> error + unit"
  submit_authreq :: "event list \<Rightarrow> auth_request option"
  submit_reply :: "event list \<Rightarrow> error + unit"
  mnfst_load_reply :: "event list \<Rightarrow> error + manifest"
  mnfst_save_reply :: "event list \<Rightarrow> error + unit"
  conf_load_reply :: "event list \<Rightarrow> error + config"
  openFolder_reply :: "event list \<Rightarrow> error + unit"

subsection \<open>Asynchronous steps\<close>

text \<open>
  An \<open>async\<close> function is a function from the history so far to its outcome (\<open>Inl\<close> the
  thrown value or rejection, \<open>Inr\<close> the value the promise resolves to) and the history
  at that point. \<open>await m k\<close> is \<open>let x = await m; k x\<close>: a rejection of \<open>m\<close> leaves
  the enclosing function at once.
\<close>

type_synonym 'a task = "event list \<Rightarrow> (error + 'a) \<times> event list"

definition resolve :: "'a \<Rightarrow> 'a task" where
  "resolve x h = (Inr x, h)"

definition reject :: "error \<Rightarrow> 'a task" where
  "reject err h = (Inl err, h)"

definition await :: "'a task \<Rightarrow> ('a \<Rightarrow> 'b task) \<Rightarrow> 'b task" where
  "await m k h = (case m h of (Inl err, h') \<Rightarrow> (Inl err, h') | (Inr x, h') \<Rightarrow> k x h')"

text \<open>\<open>try { x = await m } catch (err) { handler }\<close>, then \<open>k x\<close>.\<close>

definition try_await :: "'a task \<Rightarrow> (error \<Rightarrow> 'b task) \<Rightarrow> ('a \<Rightarrow> 'b task) \<Rightarrow> 'b task" where
  "try_await m handler k h =
     (case m h of (Inl err, h') \<Rightarrow> handler err h' | (Inr x, h') \<Rightarrow> k x h')"

text \<open>A call to a collaborator: the event is recorded, then the answer is read.\<close>

definition external :: "event \<Rightarrow> (event list \<Rightarrow> error + 'a) \<Rightarrow> 'a task" where
  "external ev reply h = (reply (h @ [ev]), h @ [ev])"

definition afs_stat :: "env \<Rightarrow> string \<Rightarrow> stats task" where
  "afs_stat e p = external (EvStat p) (stat_reply e)"

definition afs_exists :: "env \<Rightarrow> string \<Rightarrow> bool task" where
  "afs_exists e p = external (EvExists p) (exists_reply e)"

definition afs_mkdir :: "env \<Rightarrow> string \<Rightarrow> unit task" where
  "afs_mkdir e p = external (EvMkdir p) (mkdir_reply e)"

definition afs_copy :: "env \<Rightarrow> string \<Rightarrow> string \<Rightarrow> unit task" where
  "afs_copy e from to = external (EvCopy from to) (copy_reply e)"

definition ci_build :: "env \<Rightarrow> string \<Rightarrow> unit task" where
  "ci_build e src = external (EvCiBuild src) (build_reply e)"

definition ci_test :: "env \<Rightarrow> string \<Rightarrow> string \<Rightarrow> bool task" where
  "ci_test e exe testdir = external (EvCiTest exe testdir) (test_reply e)"

definition mnfst_load :: "env \<Rightarrow> string \<Rightarrow> manifest task" where
  "mnfst_load e p = external (EvMnfstLoad p) (mnfst_load_reply e)"

definition mnfst_save :: "env \<Rightarrow> string \<Rightarrow> manifest \<Rightarrow> unit task" where
  "mnfst_save e p m = external (EvMnfstSave p m) (mnfst_save_reply e)"

definition conf_load :: "env \<Rightarrow> config task" where
  "conf_load e = external EvConfLoad (conf_load_reply e)"

definition vscode_openFolder :: "env \<Rightarrow> string \<Rightarrow> bool \<Rightarrow> unit task" where
  "vscode_openFolder e p flag = external (EvOpenFolder p flag) (openFolder_reply e)"

definition vscode_saveAll :: "env \<Rightarrow> bool task" where
  "vscode_saveAll e = external EvSaveAll (\<lambda>h. Inr (saveAll_reply e h))"

definition vscode_showInputBox :: "env \<Rightarrow> input_box_options \<Rightarrow> string option task" where
  "vscode_showInputBox e options = external (EvShowInputBox options) (\<lambda>h. Inr (showInputBox_reply e h))"

text \<open>
  Modelled from the spec: \<open>ci.init\<close> and \<open>ci.submit\<close> (module \<open>ci\<close> is not part of the
  sources). The worker is sent the command; it may raise one authentication challenge
  mid-flight, which suspends the operation until the callback has produced the
  username and password and they have been handed back; only then does the worker's
  operation continue to its result. A rejection of the callback rejects the operation.
\<close>

definition ci_init :: "env \<Rightarrow> string \<Rightarrow> string \<Rightarrow> (auth_request \<Rightarrow> auth_response task) \<Rightarrow> unit task" where
  "ci_init e url project_dir respond h =
     (let h1 = h @ [EvCiInit url project_dir] in
      case init_authreq e h1 of
        None \<Rightarrow> (init_reply e h1, h1)
      | Some authreq \<Rightarrow>
          await (respond authreq) (\<lambda>resp. external (EvAuthResponse resp) (init_reply e)) h1)"

definition ci_submit :: "env \<Rightarrow> string \<Rightarrow> string \<Rightarrow> (auth_request \<Rightarrow> auth_response task) \<Rightarrow> unit task" where
  "ci_submit e src url respond h =
     (let h1 = h @ [EvCiSubmit src url] in
      case submit_authreq e h1 of
        None \<Rightarrow> (submit_reply e h1, h1)
      | Some authreq \<Rightarrow>
          await (respond authreq) (\<lambda>resp. external (EvAuthResponse resp) (submit_reply e)) h1)"

subsection \<open>Class \<open>Directory\<close>\<close>

record directory =
  base :: string

definition source :: "directory \<Rightarrow> string" where
  "source this = base this @ ''/main.cpp''"

text \<open>\<open>source.substr(0, source.length - 4) + '.e'\<close>\<close>

definition executable :: "directory \<Rightarrow> string" where
  "executable this = (let source = source this in take (length source - 4) source @ ''.e'')"

definition testsDirectory :: "directory \<Rightarrow> string" where
  "testsDirectory this = base this @ ''/tests''"

subsection \<open>Helpers\<close>

text \<open>The number of bits of a natural number.\<close>

fun bit_length :: "nat \<Rightarrow> nat" where
  "bit_length n = (if n = 0 then 0 else Suc (bit_length (n div 2)))"

declare bit_length.simps [simp del]

text \<open>\<open>p / 2 ^ s\<close> rounded to the nearest integer, a tie to the even one.\<close>

definition round_half_even :: "nat \<Rightarrow> nat \<Rightarrow> nat" where
  "round_half_even p s =
     (let q = p div 2 ^ s;
          r = p mod 2 ^ s
      in if 2 * r < 2 ^ s then q
         else if 2 ^ s < 2 * r then q + 1
         else if even q then q else q + 1)"

text \<open>
  The product \<open>d * n\<close> of a double and an array length as the double multiplication
  gives it: the exact product, rounded to 53 bits (to nearest, ties to even) when it has
  more. A significand that rounds up to \<open>2 ^ 53\<close> is kept as it is; the value is the same
  double. The length converts to a double exactly, and with a factor below one the
  product does not overflow.
\<close>

definition double_times :: "double \<Rightarrow> nat \<Rightarrow> double" where
  "double_times d n =
     (let p = significand d * n;
          s = bit_length p - 53
      in \<lparr>significand = round_half_even p s, binary_exponent = binary_exponent d + int s\<rparr>)"

text \<open>\<open>Math.floor\<close>\<close>

definition double_floor :: "double \<Rightarrow> nat" where
  "double_floor d =
     (if 0 \<le> binary_exponent d then significand d * 2 ^ nat (binary_exponent d)
      else significand d div 2 ^ nat (- binary_exponent d))"

text \<open>
  \<open>xs[Math.floor(Math.random() * xs.length)]\<close>; an index outside the array reads
  \<open>undefined\<close> (\<open>None\<close>).
\<close>

definition choice :: "env \<Rightarrow> 'a list \<Rightarrow> event list \<Rightarrow> 'a option \<times> event list" where
  "choice e xs h =
     (let h1 = h @ [EvMathRandom];
          i = double_floor (double_times (random_reply e h1) (length xs))
      in (if i < length xs then Some (xs ! i) else None, h1))"

text \<open>String concatenation turns \<open>undefined\<close> into the text \<open>undefined\<close>.\<close>

definition js_string :: "string option \<Rightarrow> string" where
  "js_string v = (case v of None \<Rightarrow> ''undefined'' | Some s \<Rightarrow> s)"

definition inputbox :: "env \<Rightarrow> input_box_options \<Rightarrow> string task" where
  "inputbox e options =
     await (vscode_showInputBox e options) (\<lambda>maybe.
       case maybe of
         Some s \<Rightarrow> resolve s
       | None \<Rightarrow> reject (ThrowError ''did not get input on input box''))"

definition unwrap :: "'a option \<Rightarrow> error + 'a" where
  "unwrap x = (case x of Some v \<Rightarrow> Inr v | None \<Rightarrow> Inl (ThrowString ''unwrap of undefined''))"

subsection \<open>Class \<open>ICIE\<close>\<close>

record icie =
  dir :: directory

definition new_ICIE :: "env \<Rightarrow> error + icie" where
  "new_ICIE e =
     (case unwrap (workspace_rootPath e) of
        Inl err \<Rightarrow> Inl err
      | Inr rootPath \<Rightarrow> Inr \<lparr>dir = \<lparr>base = rootPath\<rparr>\<rparr>)"

definition assureAllSaved :: "env \<Rightarrow> unit task" where
  "assureAllSaved e = await (vscode_saveAll e) (\<lambda>something. resolve ())"

definition triggerBuild :: "env \<Rightarrow> icie \<Rightarrow> unit task" where
  "triggerBuild e this =
     await (assureAllSaved e) (\<lambda>_.
       let source = source (dir this) in
       await (ci_build e source) (\<lambda>_. resolve ()))"

definition requiresCompilation :: "env \<Rightarrow> icie \<Rightarrow> bool task" where
  "requiresCompilation e this =
     (let src = source (dir this);
          exe = executable (dir this) in
      await (assureAllSaved e) (\<lambda>_.
      await (afs_stat e src) (\<lambda>statsrc.
      try_await (afs_stat e exe) (\<lambda>err. resolve True) (\<lambda>statexe.
        if mtime statsrc \<le> mtime statexe then resolve False else resolve True))))"

definition assureCompiled :: "env \<Rightarrow> icie \<Rightarrow> unit task" where
  "assureCompiled e this =
     await (requiresCompilation e this) (\<lambda>required.
       if required then triggerBuild e this else resolve ())"

definition triggerTest :: "env \<Rightarrow> icie \<Rightarrow> bool task" where
  "triggerTest e this =
     await (assureCompiled e this) (\<lambda>_.
       let executable = executable (dir this);
           testdir = testsDirectory (dir this) in
       ci_test e executable testdir)"

definition assureTested :: "env \<Rightarrow> icie \<Rightarrow> unit task" where
  "assureTested e this =
     await (triggerTest e this) (\<lambda>passed.
       if \<not> passed then reject (ThrowString ''Not all tests passed'') else resolve ())"

definition respondAuthreq :: "env \<Rightarrow> auth_request \<Rightarrow> auth_response task" where
  "respondAuthreq e authreq =
     await (inputbox e \<lparr>opt_prompt = ''Username at '' @ domain authreq, opt_password = False\<rparr>)
       (\<lambda>username.
     await (inputbox e \<lparr>opt_prompt = ''Password for '' @ username @ '' at '' @ domain authreq,
                        opt_password = False\<rparr>)
       (\<lambda>password.
     resolve \<lparr>username = username, password = password\<rparr>))"

definition triggerSubmit :: "env \<Rightarrow> icie \<Rightarrow> unit task" where
  "triggerSubmit e this =
     await (assureTested e this) (\<lambda>_.
     await (mnfst_load e (js_string (workspace_rootPath e) @ ''/.icie'')) (\<lambda>manifest.
     ci_submit e (source (dir this)) (task_url manifest) (\<lambda>authreq. respondAuthreq e authreq)))"

definition askDescriptionURL :: "env \<Rightarrow> string task" where
  "askDescriptionURL e = inputbox e \<lparr>opt_prompt = ''Task description URL: '', opt_password = False\<rparr>"

definition adjectives :: "string list" where
  "adjectives = [''playful'', ''shining'', ''sparkling'', ''rainbow'', ''kawaii'',
                 ''superb'', ''amazing'', ''glowing'', ''blessed'', ''smiling'']"

definition animals :: "string list" where
  "animals = [''capybara'', ''squirrel'', ''spider'', ''anteater'', ''hamster'',
              ''whale'', ''eagle'', ''zebra'', ''dolphin'', ''hedgehog'']"

definition randomName :: "env \<Rightarrow> event list \<Rightarrow> string \<times> event list" where
  "randomName e h =
     (let (adjective, h1) = choice e adjectives h;
          (animal, h2) = choice e animals h1
      in (js_string adjective @ ''-'' @ js_string animal, h2))"

text \<open>\<open>for (; tries > 0; --tries)\<close>, leaving the loop with the first free name.\<close>

fun randomProjectName :: "env \<Rightarrow> nat \<Rightarrow> string task" where
  "randomProjectName e 0 h = reject (ThrowString ''failed to find free project name'') h"
| "randomProjectName e (Suc tries) h =
     (let (name, h1) = randomName e h in
      await (afs_exists e (os_homedir e @ ''/'' @ name)) (\<lambda>found.
        if \<not> found then resolve name else randomProjectName e tries) h1)"

definition triggerInit :: "env \<Rightarrow> unit task" where
  "triggerInit e =
     await (askDescriptionURL e) (\<lambda>task_url.
     await (randomProjectName e 5) (\<lambda>project_name.
     let project_dir = os_homedir e @ ''/'' @ project_name in
     await (afs_mkdir e project_dir) (\<lambda>_.
     await (ci_init e task_url project_dir (\<lambda>domain. respondAuthreq e domain)) (\<lambda>_.
     let manifest = \<lparr>task_url = task_url\<rparr> in
     await (mnfst_save e (project_dir @ ''/.icie'') manifest) (\<lambda>_.
     await (conf_load e) (\<lambda>config.
     let dir2 = \<lparr>base = project_dir\<rparr> in
     await (afs_copy e (path (template config)) (source dir2)) (\<lambda>_.
     await (vscode_openFolder e project_dir False) (\<lambda>_.
     resolve ()))))))))"

section \<open>The process bridge\<close>

subsection \<open>The frame decoder\<close>

text \<open>
  Modelled from the spec: the frame decoder \<open>multijson.Parser\<close> (module \<open>multijson\<close> is
  not part of the sources), this subsection through \<open>parser_read\<close>. \<open>write\<close> appends raw
  bytes to an internal buffer. \<open>read\<close> returns, and removes from the buffer, every complete
  value found so far, in arrival order, and leaves a trailing partial value in the
  buffer. A value is complete when a structural scan finds the closing delimiter of a
  top-level object or array; a brace or bracket inside a string literal is not
  structural, and a backslash in a string literal escapes the character after it. White
  space between values is dropped. A decoded value is represented by the text of its
  document, of which it is a function.
\<close>

definition quote :: char where
  "quote = CHR 0x22"

definition backslash :: char where
  "backslash = CHR 0x5C"

definition is_ws :: "char \<Rightarrow> bool" where
  "is_ws c \<longleftrightarrow> c = CHR '' '' \<or> c = CHR 0x0A \<or> c = CHR 0x0D \<or> c = CHR 0x09"

definition opens :: "char \<Rightarrow> bool" where
  "opens c \<longleftrightarrow> c = CHR ''{'' \<or> c = CHR ''[''"

definition closes :: "char \<Rightarrow> bool" where
  "closes c \<longleftrightarrow> c = CHR ''}'' \<or> c = CHR '']''"

datatype scan_mode = Structural | InString | Escaped

text \<open>\<open>attach c\<close> puts a scanned byte in front of the frame that the rest of the scan finds.\<close>

definition attach :: "char \<Rightarrow> (string \<times> string) option \<Rightarrow> (string \<times> string) option" where
  "attach c found = map_option (\<lambda>(frame, rest). (c # frame, rest)) found"

text \<open>
  Modelled from the spec: the structural scan, at a nesting depth and in a mode. It gives
  the frame that ends with the delimiter that closes the top level, and the bytes after
  it; \<open>None\<close> when the bytes end before.
\<close>

fun scan :: "nat \<Rightarrow> scan_mode \<Rightarrow> string \<Rightarrow> (string \<times> string) option" where
  "scan depth mode [] = None"
| "scan depth Escaped (c # cs) = attach c (scan depth InString cs)"
| "scan depth InString (c # cs) =
     attach c (scan depth (if c = quote then Structural
                           else if c = backslash then Escaped
                           else InString) cs)"
| "scan depth Structural (c # cs) =
     (if c = quote then attach c (scan depth InString cs)
      else if opens c then attach c (scan (Suc depth) Structural cs)
      else if closes c then
        (if depth \<le> 1 then Some ([c], cs) else attach c (scan (depth - 1) Structural cs))
      else attach c (scan depth Structural cs))"

lemma scan_shorter:
  "scan depth mode bytes = Some (frame, rest) \<Longrightarrow> length rest < length bytes"
  by (induction depth mode bytes arbitrary: frame rest rule: scan.induct)
    (auto simp add: attach_def split: if_splits)

text \<open>
  Modelled from the spec: every complete value at the front of the buffer, and what is
  left of the buffer. Bytes that start neither white space nor an object or array never
  complete a value; they stay where they are.
\<close>

function frames :: "string \<Rightarrow> string list \<times> string" where
  "frames buf =
     (case dropWhile is_ws buf of
        [] \<Rightarrow> ([], [])
      | c # cs \<Rightarrow>
          if opens c then
            (case scan 0 Structural (c # cs) of
               None \<Rightarrow> ([], c # cs)
             | Some (frame, rest) \<Rightarrow>
                 (let (found, left) = frames rest in (frame # found, left)))
          else ([], c # cs))"
  by pat_completeness auto
termination
proof (relation "measure length")
  fix buf c cs x frame rest
  assume "dropWhile is_ws buf = c # cs" and "scan 0 Structural (c # cs) = Some x"
    and "(frame, rest) = x"
  then have "length rest < length (dropWhile is_ws buf)"
    using scan_shorter [of 0 Structural "c # cs" frame rest] by simp
  also have "\<dots> \<le> length buf" by (rule length_dropWhile_le)
  finally show "(rest, buf) \<in> measure length" by simp
qed simp

declare frames.simps [simp del]

text \<open>Modelled from the spec: the decoder's state, its constructor, \<open>write\<close> and \<open>read\<close>.\<close>

record parser =
  buffer :: string

definition new_Parser :: parser where
  "new_Parser = \<lparr>buffer = []\<rparr>"

definition parser_write :: "parser \<Rightarrow> string \<Rightarrow> parser" where
  "parser_write this chunk = this\<lparr>buffer := buffer this @ chunk\<rparr>"

definition parser_read :: "parser \<Rightarrow> string list \<times> parser" where
  "parser_read this = (let (found, left) = frames (buffer this) in (found, this\<lparr>buffer := left\<rparr>))"

subsection \<open>Class \<open>Logic\<close>\<close>

text \<open>
  The bridge to the worker process, from \<open>native.ts\<close>. Of its state, the path and the
  decoder are kept; the child process is the source of the \<open>data\<close> events below and is
  not a value of the model. \<open>send\<close>, which writes to the child, is left out.
\<close>

record logic =
  logic_path :: string
  parser :: parser

definition new_Logic :: "string \<Rightarrow> logic" where
  "new_Logic extensionPath =
     \<lparr>logic_path = extensionPath @ ''/assets/bin-linux'', parser = new_Parser\<rparr>"

text \<open>What a \<open>data\<close> event of the child's output carries.\<close>

datatype chunk = Buffer string | Text string

text \<open>
  \<open>recv\<close> registers one handler for the \<open>data\<close> events: a chunk is written to the decoder
  and the callback is called on each value that the decoder then reads, in order.
  \<open>recv this chunks\<close> is the sequence of values the callback has been called on when the
  chunks have arrived in this order, and the bridge after them; a chunk that is a
  string makes the handler throw.
\<close>

fun recv :: "logic \<Rightarrow> chunk list \<Rightarrow> error + (string list \<times> logic)" where
  "recv this [] = Inr ([], this)"
| "recv this (Text s # chunks) =
     Inl (ThrowError ''icie_stdio.stdout.on [data] returned string instead of Buffer'')"
| "recv this (Buffer bytes # chunks) =
     (let (reactions, parser') = parser_read (parser_write (parser this) bytes) in
      case recv (this\<lparr>parser := parser'\<rparr>) chunks of
        Inl err \<Rightarrow> Inl err
      | Inr (later, this') \<Rightarrow> Inr (reactions @ later, this'))"

subsection \<open>JSON documents\<close>

text \<open>
  The grammar of JSON values (RFC 8259), on bytes. A document is an object or an array:
  the top-level values whose end a structural scan can find, and the only ones the
  protocol sends.
\<close>

definition digit :: "char \<Rightarrow> bool" where
  "digit c \<longleftrightarrow> c \<in> set ''0123456789''"

definition hex_digit :: "char \<Rightarrow> bool" where
  "hex_digit c \<longleftrightarrow> c \<in> set ''0123456789abcdefABCDEF''"

definition json_ws :: "string \<Rightarrow> bool" where
  "json_ws w \<longleftrightarrow> list_all is_ws w"

definition json_digits :: "string \<Rightarrow> bool" where
  "json_digits ds \<longleftrightarrow> ds \<noteq> [] \<and> list_all digit ds"

text \<open>The characters between the quotes of a string literal.\<close>

inductive json_chars :: "string \<Rightarrow> bool" where
  chars_end: "json_chars []"
| chars_plain: "c \<noteq> quote \<Longrightarrow> c \<noteq> backslash \<Longrightarrow> 32 \<le> (of_char c :: nat) \<Longrightarrow> json_chars s
     \<Longrightarrow> json_chars (c # s)"
| chars_escape: "c \<in> set [quote, backslash, CHR ''/'', CHR ''b'', CHR ''f'', CHR ''n'', CHR ''r'', CHR ''t'']
     \<Longrightarrow> json_chars s \<Longrightarrow> json_chars (backslash # c # s)"
| chars_unicode: "hex_digit a \<Longrightarrow> hex_digit b \<Longrightarrow> hex_digit c \<Longrightarrow> hex_digit d \<Longrightarrow> json_chars s
     \<Longrightarrow> json_chars (backslash # CHR ''u'' # a # b # c # d # s)"

inductive json_number :: "string \<Rightarrow> bool" where
  number: "sign = [] \<or> sign = ''-'' \<Longrightarrow>
     whole = ''0'' \<or> (json_digits whole \<and> hd whole \<noteq> CHR ''0'') \<Longrightarrow>
     fraction = [] \<or> (\<exists>ds. json_digits ds \<and> fraction = CHR ''.'' # ds) \<Longrightarrow>
     exponent = [] \<or> (\<exists>e s ds. (e = CHR ''e'' \<or> e = CHR ''E'') \<and> (s = [] \<or> s = ''+'' \<or> s = ''-'') \<and>
                              json_digits ds \<and> exponent = e # s @ ds) \<Longrightarrow>
     json_number (sign @ whole @ fraction @ exponent)"

inductive json_value :: "string \<Rightarrow> bool"
  and json_elements :: "string \<Rightarrow> bool"
  and json_members :: "string \<Rightarrow> bool" where
  value_null: "json_value ''null''"
| value_true: "json_value ''true''"
| value_false: "json_value ''false''"
| value_number: "json_number n \<Longrightarrow> json_value n"
| value_string: "json_chars s \<Longrightarrow> json_value (quote # s @ [quote])"
| value_empty_array: "json_ws w \<Longrightarrow> json_value (CHR ''['' # w @ '']'')"
| value_array: "json_elements es \<Longrightarrow> json_value (CHR ''['' # es @ '']'')"
| value_empty_object: "json_ws w \<Longrightarrow> json_value (CHR ''{'' # w @ ''}'')"
| value_object: "json_members ms \<Longrightarrow> json_value (CHR ''{'' # ms @ ''}'')"
| elements_last: "json_ws w1 \<Longrightarrow> json_value v \<Longrightarrow> json_ws w2 \<Longrightarrow> json_elements (w1 @ v @ w2)"
| elements_more: "json_ws w1 \<Longrightarrow> json_value v \<Longrightarrow> json_ws w2 \<Longrightarrow> json_elements es
     \<Longrightarrow> json_elements (w1 @ v @ w2 @ CHR '','' # es)"
| members_last: "json_ws w1 \<Longrightarrow> json_chars k \<Longrightarrow> json_ws w2 \<Longrightarrow> json_ws w3 \<Longrightarrow> json_value v
     \<Longrightarrow> json_ws w4
     \<Longrightarrow> json_members (w1 @ quote # k @ quote # w2 @ CHR '':'' # w3 @ v @ w4)"
| members_more: "json_ws w1 \<Longrightarrow> json_chars k \<Longrightarrow> json_ws w2 \<Longrightarrow> json_ws w3 \<Longrightarrow> json_value v
     \<Longrightarrow> json_ws w4 \<Longrightarrow> json_members ms
     \<Longrightarrow> json_members (w1 @ quote # k @ quote # w2 @ CHR '':'' # w3 @ v @ w4 @ CHR '','' # ms)"

definition json_document :: "string \<Rightarrow> bool" where
  "json_document d \<longleftrightarrow> json_value d \<and> (\<exists>c cs. d = c # cs \<and> opens c)"

text \<open>A truncated document: what has arrived of a document of which more is to come.\<close>

definition json_partial :: "string \<Rightarrow> bool" where
  "json_partial p \<longleftrightarrow> (\<exists>q. q \<noteq> [] \<and> json_document (p @ q))"

text \<open>The bytes of a sequence of documents, each followed by white space (possibly none).\<close>

definition wire :: "(string \<times> string) list \<Rightarrow> string" where
  "wire docs = concat (map (\<lambda>(d, w). d @ w) docs)"

text \<open>
  What the scan sees of a text: bytes outside string literals, string literals with
  their escapes, and bracketed texts.
\<close>

inductive literal_chars :: "string \<Rightarrow> bool" where
  literal_end: "literal_chars []"
| literal_plain: "c \<noteq> quote \<Longrightarrow> c \<noteq> backslash \<Longrightarrow> literal_chars s \<Longrightarrow> literal_chars (c # s)"
| literal_escape: "literal_chars s \<Longrightarrow> literal_chars (backslash # c # s)"

inductive nested :: "string \<Rightarrow> bool" where
  nested_end: "nested []"
| nested_plain: "c \<noteq> quote \<Longrightarrow> \<not> opens c \<Longrightarrow> \<not> closes c \<Longrightarrow> nested xs \<Longrightarrow> nested (c # xs)"
| nested_literal: "literal_chars s \<Longrightarrow> nested xs \<Longrightarrow> nested (quote # s @ quote # xs)"
| nested_bracket: "opens a \<Longrightarrow> nested ys \<Longrightarrow> closes b \<Longrightarrow> nested xs \<Longrightarrow> nested (a # ys @ b # xs)"

section \<open>Vocabulary of the statements\<close>

text \<open>Kinds of events.\<close>

fun is_submit :: "event \<Rightarrow> bool" where
  "is_submit (EvCiSubmit src url) = True"
| "is_submit ev = False"

fun is_manifest_load :: "event \<Rightarrow> bool" where
  "is_manifest_load (EvMnfstLoad p) = True"
| "is_manifest_load ev = False"

fun is_prompt :: "event \<Rightarrow> bool" where
  "is_prompt (EvShowInputBox options) = True"
| "is_prompt ev = False"

fun is_auth_response :: "event \<Rightarrow> bool" where
  "is_auth_response (EvAuthResponse resp) = True"
| "is_auth_response ev = False"

fun is_naming :: "event \<Rightarrow> bool" where
  "is_naming EvMathRandom = True"
| "is_naming (EvExists p) = True"
| "is_naming ev = False"

text \<open>The three prompts the code issues, and the error of a dismissed prompt.\<close>

definition url_prompt :: event where
  "url_prompt = EvShowInputBox \<lparr>opt_prompt = ''Task description URL: '', opt_password = False\<rparr>"

definition username_prompt :: "auth_request \<Rightarrow> event" where
  "username_prompt authreq =
     EvShowInputBox \<lparr>opt_prompt = ''Username at '' @ domain authreq, opt_password = False\<rparr>"

definition password_prompt :: "auth_request \<Rightarrow> string \<Rightarrow> event" where
  "password_prompt authreq user =
     EvShowInputBox \<lparr>opt_prompt = ''Password for '' @ user @ '' at '' @ domain authreq,
                     opt_password = False\<rparr>"

definition cancelled :: error where
  "cancelled = ThrowError ''did not get input on input box''"

text \<open>
  The contract of \<open>Math.random()\<close>: a double, at least 0 and below 1.
\<close>

definition is_double :: "double \<Rightarrow> bool" where
  "is_double d \<longleftrightarrow> significand d < 2 ^ 53 \<and> - 1074 \<le> binary_exponent d \<and> binary_exponent d \<le> 971"

definition below_one :: "double \<Rightarrow> bool" where
  "below_one d \<longleftrightarrow>
     significand d = 0 \<or> (binary_exponent d < 0 \<and> significand d < 2 ^ nat (- binary_exponent d))"

text \<open>
  One round of the name search as an observer sees it: the name drawn, the answer of the
  existence check on its path under the home directory, and the history after the check.
  \<open>collisions e k h\<close> is the history after \<open>k\<close> rounds from \<open>h\<close> when each of them found
  its path taken.
\<close>

definition attempt :: "env \<Rightarrow> event list \<Rightarrow> string \<times> (error + bool) \<times> event list" where
  "attempt e h =
     (let (name, h1) = randomName e h;
          h2 = h1 @ [EvExists (os_homedir e @ ''/'' @ name)]
      in (name, exists_reply e h2, h2))"

fun collisions :: "env \<Rightarrow> nat \<Rightarrow> event list \<Rightarrow> event list option" where
  "collisions e 0 h = Some h"
| "collisions e (Suc k) h =
     (case attempt e h of
        (name, Inr True, h2) \<Rightarrow> collisions e k h2
      | _ \<Rightarrow> None)"

text \<open>The scan of a text in front of another; bytes that are no quote and no bracket.\<close>

definition attach_all :: "string \<Rightarrow> (string \<times> string) option \<Rightarrow> (string \<times> string) option" where
  "attach_all pre found = map_option (\<lambda>(frame, rest). (pre @ frame, rest)) found"

definition unstructured :: "char \<Rightarrow> bool" where
  "unstructured c \<longleftrightarrow> c \<noteq> quote \<and> \<not> opens c \<and> \<not> closes c"

section \<open>Sample environments\<close>

text \<open>
  A user who answers every prompt: a name, a password, and the URL of a task.
\<close>

definition calm_answer :: "event list \<Rightarrow> string option" where
  "calm_answer h =
     (case last h of
        EvShowInputBox options \<Rightarrow>
          (if take 8 (opt_prompt options) = ''Username'' then Some ''alice''
           else if take 8 (opt_prompt options) = ''Password'' then Some ''s3cret''
           else Some ''https://judge.example/problem/1'')
      | _ \<Rightarrow> None)"

text \<open>A file system that does not change: the modification time of each file that exists.\<close>

definition stat_of :: "(string \<rightharpoonup> int) \<Rightarrow> event list \<Rightarrow> error + stats" where
  "stat_of files h =
     (case last h of
        EvStat p \<Rightarrow>
          (case files p of
             None \<Rightarrow> Inl (Rejection ''ENOENT'')
           | Some t \<Rightarrow> Inr \<lparr>mtime = t\<rparr>)
      | _ \<Rightarrow> Inl (Rejection ''EINVAL''))"

text \<open>
  Every collaborator succeeds: the executable is as new as the source, the tests pass,
  every drawn name is free, the worker asks for no credentials.
\<close>

definition calm_env :: env where
  "calm_env =
     \<lparr>os_homedir = ''/home/u'',
      workspace_rootPath = Some ''/w'',
      saveAll_reply = (\<lambda>h. True),
      showInputBox_reply = calm_answer,
      random_reply = (\<lambda>h. \<lparr>significand = 0, binary_exponent = 0\<rparr>),
      stat_reply = stat_of [''/w/main.cpp'' \<mapsto> 10, ''/w/main.e'' \<mapsto> 10],
      exists_reply = (\<lambda>h. Inr False),
      mkdir_reply = (\<lambda>h. Inr ()),
      copy_reply = (\<lambda>h. Inr ()),
      build_reply = (\<lambda>h. Inr ()),
      test_reply = (\<lambda>h. Inr True),
      init_authreq = (\<lambda>h. None),
      init_reply = (\<lambda>h. Inr ()),
      submit_authreq = (\<lambda>h. None),
      submit_reply = (\<lambda>h. Inr ()),
      mnfst_load_reply = (\<lambda>h. Inr \<lparr>task_url = ''https://judge.example/problem/1''\<rparr>),
      mnfst_save_reply = (\<lambda>h. Inr ()),
      conf_load_reply =
        (\<lambda>h. Inr \<lparr>template = \<lparr>path = ''/home/u/template.cpp'', start = \<lparr>row = 1, column = 1\<rparr>\<rparr>\<rparr>),
      openFolder_reply = (\<lambda>h. Inr ())\<rparr>"

text \<open>What an init does in it.\<close>

definition calm_init_history :: "event list" where
  "calm_init_history =
     [EvShowInputBox \<lparr>opt_prompt = ''Task description URL: '', opt_password = False\<rparr>,
      EvMathRandom, EvMathRandom, EvExists ''/home/u/playful-capybara'',
      EvMkdir ''/home/u/playful-capybara'',
      EvCiInit ''https://judge.example/problem/1'' ''/home/u/playful-capybara'',
      EvMnfstSave ''/home/u/playful-capybara/.icie''
        \<lparr>task_url = ''https://judge.example/problem/1''\<rparr>,
      EvConfLoad,
      EvCopy ''/home/u/template.cpp'' ''/home/u/playful-capybara/main.cpp'',
      EvOpenFolder ''/home/u/playful-capybara'' False]"

definition demo_icie :: icie where
  "demo_icie = \<lparr>dir = \<lparr>base = ''/w''\<rparr>\<rparr>"

text \<open>The source was edited after the last build.\<close>

definition stale_env :: env where
  "stale_env = calm_env\<lparr>stat_reply := stat_of [''/w/main.cpp'' \<mapsto> 20, ''/w/main.e'' \<mapsto> 10]\<rparr>"

text \<open>The source has never been built.\<close>

definition unbuilt_env :: env where
  "unbuilt_env = calm_env\<lparr>stat_reply := stat_of [''/w/main.cpp'' \<mapsto> 20]\<rparr>"

text \<open>The workspace holds neither the source nor the executable.\<close>

definition empty_env :: env where
  "empty_env = calm_env\<lparr>stat_reply := stat_of Map.empty\<rparr>"

text \<open>A test fails.\<close>

definition failing_env :: env where
  "failing_env = calm_env\<lparr>test_reply := (\<lambda>h. Inr False)\<rparr>"




text \<open>Every name is taken.\<close>

definition crowded_env :: env where
  "crowded_env = calm_env\<lparr>exists_reply := (\<lambda>h. Inr True)\<rparr>"

text \<open>
  One name is taken; it is drawn twice before another one comes up. The later draws are
  the double nearest to 0.7, which is \<open>6305039478318694 / 2 ^ 53\<close>: ten times it is
  halfway between two doubles and rounds to 7.
\<close>

definition busy_env :: env where
  "busy_env =
     calm_env\<lparr>exists_reply := (\<lambda>h. Inr (last h = EvExists ''/home/u/playful-capybara'')),
              random_reply := (\<lambda>h. if length h < 7 then \<lparr>significand = 0, binary_exponent = 0\<rparr>
                                   else \<lparr>significand = 6305039478318694, binary_exponent = - 53\<rparr>)\<rparr>"

text \<open>The user dismisses every prompt; the user enters nothing and confirms.\<close>

definition dismissing_env :: env where
  "dismissing_env = calm_env\<lparr>showInputBox_reply := (\<lambda>h. None)\<rparr>"

definition silent_env :: env where
  "silent_env = calm_env\<lparr>showInputBox_reply := (\<lambda>h. Some [])\<rparr>"

text \<open>Two documents, and the bytes of both in chunks that cut through them.\<close>

definition status_doc :: string where
  \<open>status_doc = ''{"tag":"status","message":null}''\<close>

definition list_doc :: string where
  \<open>list_doc = ''[1,"}'' @ [backslash] @ ''"]"]''\<close>

definition newline :: string where
  "newline = [CHR 0x0A]"

definition sample_chunks :: "string list" where
  \<open>sample_chunks =
     [''{"tag":"sta'', ''tus","message":null}'', newline @ ''[1,"}'' @ [backslash], ''"]"]'' @ newline]\<close>

section \<open>Runs of the asynchronous steps\<close>

lemmas task_defs = resolve_def reject_def await_def try_await_def external_def
  afs_stat_def afs_exists_def afs_mkdir_def afs_copy_def ci_build_def ci_test_def
  mnfst_load_def mnfst_save_def conf_load_def vscode_openFolder_def vscode_saveAll_def
  vscode_showInputBox_def assureAllSaved_def

lemma await_Inr:
  "await m k h = (Inr y, h') \<longleftrightarrow> (\<exists>x h1. m h = (Inr x, h1) \<and> k x h1 = (Inr y, h'))"
  by (cases "m h") (auto simp add: await_def split: sum.splits)

lemma external_Inr:
  "external ev reply h = (Inr x, h') \<longleftrightarrow> reply (h @ [ev]) = Inr x \<and> h' = h @ [ev]"
  by (auto simp add: external_def)

subsection \<open>Freshness, build and test\<close>

lemma requiresCompilation_run:
  "requiresCompilation e this h =
     (let h2 = h @ [EvSaveAll, EvStat (source (dir this))];
          h3 = h2 @ [EvStat (executable (dir this))] in
      case stat_reply e h2 of
        Inl err \<Rightarrow> (Inl err, h2)
      | Inr statsrc \<Rightarrow>
          (case stat_reply e h3 of
             Inl err \<Rightarrow> (Inr True, h3)
           | Inr statexe \<Rightarrow> (Inr (\<not> mtime statsrc \<le> mtime statexe), h3)))"
  by (simp add: requiresCompilation_def task_defs Let_def split: sum.splits)

lemma triggerTest_events:
  "\<exists>evs. snd (triggerTest e this h) = h @ EvSaveAll # evs \<and>
     set evs \<subseteq> {EvSaveAll, EvStat (source (dir this)), EvStat (executable (dir this)),
                 EvCiBuild (source (dir this)),
                 EvCiTest (executable (dir this)) (testsDirectory (dir this))}"
  by (auto simp add: triggerTest_def assureCompiled_def triggerBuild_def requiresCompilation_run
      task_defs Let_def split: sum.splits)

lemma assureTested_failed:
  "fst (triggerTest e this h) = Inr False \<Longrightarrow>
   assureTested e this h = (Inl (ThrowString ''Not all tests passed''), snd (triggerTest e this h))"
  by (cases "triggerTest e this h") (simp add: assureTested_def await_def reject_def)

lemma await_first:
  assumes "\<And>h. \<exists>evs. snd (m h) = h @ ev # evs" and "\<And>x h. \<exists>evs. snd (k x h) = h @ evs"
  shows "\<exists>evs. snd (await m k h) = h @ ev # evs"
proof (cases "m h")
  case (Pair r h1)
  from assms(1) [of h] Pair obtain evs where h1: "h1 = h @ ev # evs" by auto
  show ?thesis
  proof (cases r)
    case (Inl err)
    with Pair h1 show ?thesis by (simp add: await_def)
  next
    case (Inr x)
    from assms(2) [of x h1] obtain evs' where "snd (k x h1) = h1 @ evs'" by blast
    with Pair Inr h1 show ?thesis by (simp add: await_def)
  qed
qed

subsection \<open>Prompts and the authentication callback\<close>

lemma inputbox_run:
  "inputbox e options h =
     (case showInputBox_reply e (h @ [EvShowInputBox options]) of
        None \<Rightarrow> (Inl cancelled, h @ [EvShowInputBox options])
      | Some s \<Rightarrow> (Inr s, h @ [EvShowInputBox options]))"
  by (simp add: inputbox_def cancelled_def task_defs split: option.splits)

lemma respondAuthreq_run:
  "respondAuthreq e authreq h =
     (let h1 = h @ [username_prompt authreq] in
      case showInputBox_reply e h1 of
        None \<Rightarrow> (Inl cancelled, h1)
      | Some u \<Rightarrow>
          (let h2 = h1 @ [password_prompt authreq u] in
           case showInputBox_reply e h2 of
             None \<Rightarrow> (Inl cancelled, h2)
           | Some p \<Rightarrow> (Inr \<lparr>username = u, password = p\<rparr>, h2)))"
  by (simp add: respondAuthreq_def inputbox_run username_prompt_def password_prompt_def
      await_def resolve_def Let_def split: option.splits)

lemma respondAuthreq_Inr:
  "respondAuthreq e authreq h = (Inr resp, h') \<longleftrightarrow>
     (\<exists>u p. showInputBox_reply e (h @ [username_prompt authreq]) = Some u \<and>
            showInputBox_reply e (h @ [username_prompt authreq, password_prompt authreq u]) = Some p \<and>
            resp = \<lparr>username = u, password = p\<rparr> \<and>
            h' = h @ [username_prompt authreq, password_prompt authreq u])"
  by (auto simp add: respondAuthreq_run Let_def split: option.splits)


lemma ci_init_Inr:
  "ci_init e url d (respondAuthreq e) h = (Inr (), h') \<longleftrightarrow>
     (case init_authreq e (h @ [EvCiInit url d]) of
        None \<Rightarrow> h' = h @ [EvCiInit url d] \<and> init_reply e h' = Inr ()
      | Some authreq \<Rightarrow>
          (\<exists>u p. showInputBox_reply e (h @ [EvCiInit url d, username_prompt authreq]) = Some u \<and>
             showInputBox_reply e (h @ [EvCiInit url d, username_prompt authreq,
                                        password_prompt authreq u]) = Some p \<and>
             h' = h @ [EvCiInit url d, username_prompt authreq, password_prompt authreq u,
                       EvAuthResponse \<lparr>username = u, password = p\<rparr>] \<and>
             init_reply e h' = Inr ()))"
  by (auto simp add: ci_init_def Let_def await_Inr external_Inr respondAuthreq_Inr
      split: option.splits)

subsection \<open>The name search\<close>

lemma bit_length_0 [simp]: "bit_length 0 = 0"
  by (simp add: bit_length.simps)

lemma bit_length_le: "bit_length n \<le> k \<longleftrightarrow> n < 2 ^ k"
proof (induction n arbitrary: k rule: bit_length.induct)
  case (1 n)
  show ?case
  proof (cases "n = 0")
    case True
    then show ?thesis by simp
  next
    case False
    show ?thesis
    proof (cases k)
      case 0
      with False show ?thesis by (simp add: bit_length.simps [of n])
    next
      case (Suc j)
      have "bit_length n \<le> Suc j \<longleftrightarrow> bit_length (n div 2) \<le> j"
        using False by (simp add: bit_length.simps [of n])
      also have "\<dots> \<longleftrightarrow> n div 2 < 2 ^ j" using "1.IH" [OF False] .
      also have "\<dots> \<longleftrightarrow> n < 2 ^ Suc j" by auto
      finally show ?thesis using Suc by simp
    qed
  qed
qed

lemma bit_length_eqI: "2 ^ k \<le> n \<Longrightarrow> n < 2 ^ Suc k \<Longrightarrow> bit_length n = Suc k"
  using bit_length_le [of n "Suc k"] bit_length_le [of n k] by auto

lemma round_half_even_0 [simp]: "round_half_even p 0 = p"
  by (simp add: round_half_even_def)

lemma round_half_even_below:
  assumes "p + 10 \<le> q * 2 ^ s" "2 ^ s < (20::nat)"
  shows "round_half_even p s < q"
proof -
  let ?a = "p div 2 ^ s" and ?r = "p mod 2 ^ s"
  have p: "p = ?a * 2 ^ s + ?r" using div_mult_mod_eq [of p "2 ^ s"] by simp
  have r: "?r < 2 ^ s" by simp
  have "?a * 2 ^ s < q * 2 ^ s" using p assms(1) by linarith
  then have a: "?a < q" by simp
  show ?thesis
  proof (cases "Suc ?a < q")
    case True
    then show ?thesis by (simp add: round_half_even_def Let_def)
  next
    case False
    with a have q: "q = Suc ?a" by simp
    have "?a * 2 ^ s + ?r + 10 \<le> Suc ?a * 2 ^ s" using assms(1) p q by metis
    then have "?r + 10 \<le> 2 ^ s" by simp
    with assms(2) have "2 * ?r < 2 ^ s" by linarith
    then show ?thesis using a by (simp add: round_half_even_def Let_def)
  qed
qed

lemma draw_in_range:
  assumes "is_double d" "below_one d"
  shows "double_floor (double_times d 10) < 10"
proof (cases "significand d = 0")
  case True
  then show ?thesis
    by (simp add: double_times_def double_floor_def Let_def)
next
  case False
  define m where "m = significand d"
  define k where "k = nat (- binary_exponent d)"
  from assms False have e: "binary_exponent d < 0" and mk: "m < 2 ^ k" and m53: "m < 2 ^ 53"
    by (simp_all add: below_one_def is_double_def m_def k_def)
  then have ek: "binary_exponent d = - int k" by (simp add: k_def)
  define s where "s = bit_length (m * 10) - 53"
  have times: "double_times d 10 =
      \<lparr>significand = round_half_even (m * 10) s, binary_exponent = int s - int k\<rparr>"
    by (simp add: double_times_def Let_def m_def s_def ek)
  show ?thesis
  proof (cases "bit_length (m * 10) \<le> 53")
    case True
    then have "s = 0" by (simp add: s_def)
    moreover have "m * 10 < 10 * 2 ^ k" using mk by simp
    then have "m * 10 div 2 ^ k < 10" by (rule less_mult_imp_div_less)
    ultimately show ?thesis using e
      by (simp add: times double_floor_def ek)
  next
    case long: False
    have "m * 10 < 2 ^ 57" using m53 by simp
    then have "bit_length (m * 10) \<le> 57" by (simp add: bit_length_le)
    with long have s: "1 \<le> s" "s \<le> 4" by (simp_all add: s_def)
    from long have "2 ^ 53 \<le> m * 10" by (simp add: bit_length_le not_le [symmetric] not_less)
    then have "(2::nat) ^ 49 < m" by simp
    then have "(2::nat) ^ 49 < 2 ^ k" using mk by (rule less_trans)
    then have "49 < k" by (rule power_less_imp_less_exp [rotated]) simp
    with s have sk: "s < k" by simp
    define x where "x = (2::nat) ^ (k - s)"
    have k2: "(2::nat) ^ k = x * 2 ^ s"
      using sk by (simp add: x_def power_add [symmetric])
    have small: "(2::nat) ^ s < 20"
    proof -
      have "(2::nat) ^ s \<le> 2 ^ 4" using s(2) by (intro power_increasing) simp_all
      then show ?thesis by simp
    qed
    have "m * 10 + 10 \<le> (10 * x) * 2 ^ s"
      using mk k2 by (simp add: algebra_simps) 
    from round_half_even_below [OF this small]
    have "round_half_even (m * 10) s < 10 * x" .
    then have "round_half_even (m * 10) s div x < 10"
      by (rule less_mult_imp_div_less)
    moreover have "nat (int k - int s) = k - s" using sk by simp
    ultimately show ?thesis using sk
      by (simp add: times double_floor_def x_def)
  qed
qed

lemma randomName_events:
  "snd (randomName e h) = h @ [EvMathRandom, EvMathRandom]"
  by (simp add: randomName_def choice_def Let_def split: prod.splits)

lemma randomName_run:
  assumes "\<forall>h. is_double (random_reply e h) \<and> below_one (random_reply e h)"
  shows "(let i = double_floor (double_times (random_reply e (h @ [EvMathRandom])) 10);
              j = double_floor (double_times (random_reply e (h @ [EvMathRandom, EvMathRandom])) 10)
          in i < 10 \<and> j < 10 \<and>
             randomName e h = (adjectives ! i @ ''-'' @ animals ! j, h @ [EvMathRandom, EvMathRandom]))"
proof -
  have len: "length adjectives = 10" "length animals = 10"
    by (simp_all add: adjectives_def animals_def)
  have i: "double_floor (double_times (random_reply e (h @ [EvMathRandom])) 10) < 10"
    using assms by (intro draw_in_range) simp_all
  have j: "double_floor (double_times (random_reply e (h @ [EvMathRandom, EvMathRandom])) 10) < 10"
    using assms by (intro draw_in_range) simp_all
  show ?thesis
    using i j by (simp add: randomName_def choice_def js_string_def len Let_def)
qed

lemma attempt_events:
  "snd (snd (attempt e h)) =
     h @ [EvMathRandom, EvMathRandom, EvExists (os_homedir e @ ''/'' @ fst (attempt e h))]"
  using randomName_events [of e h]
  by (cases "randomName e h") (simp add: attempt_def Let_def)

lemma randomProjectName_Suc:
  "randomProjectName e (Suc n) h =
     (case attempt e h of
        (name, Inl err, h2) \<Rightarrow> (Inl err, h2)
      | (name, Inr found, h2) \<Rightarrow> if found then randomProjectName e n h2 else (Inr name, h2))"
  by (simp add: attempt_def task_defs Let_def split: prod.splits sum.splits)

lemma randomProjectName_collisions:
  "collisions e k h = Some hk \<Longrightarrow> randomProjectName e (k + n) h = randomProjectName e n hk"
proof (induction k arbitrary: h)
  case 0
  then show ?case by simp
next
  case (Suc k)
  then show ?case
    by (auto simp add: randomProjectName_Suc simp del: randomProjectName.simps
        split: prod.splits sum.splits bool.splits)
qed

lemma randomProjectName_Inr:
  "randomProjectName e n h = (Inr name, h') \<Longrightarrow>
     \<exists>naming. h' = h @ naming @ [EvExists (os_homedir e @ ''/'' @ name)] \<and>
              list_all is_naming naming \<and> exists_reply e h' = Inr False"
proof (induction n arbitrary: h)
  case 0
  then show ?case by (simp add: reject_def)
next
  case (Suc n)
  obtain nm h1 where rn: "randomName e h = (nm, h1)" by (cases "randomName e h")
  then have h1: "h1 = h @ [EvMathRandom, EvMathRandom]"
    using randomName_events [of e h] by simp
  let ?h2 = "h1 @ [EvExists (os_homedir e @ ''/'' @ nm)]"
  from Suc.prems rn have run:
    "(case exists_reply e ?h2 of
        Inl err \<Rightarrow> (Inl err, ?h2)
      | Inr found \<Rightarrow> if found then randomProjectName e n ?h2 else (Inr nm, ?h2)) = (Inr name, h')"
    by (auto simp add: task_defs split: sum.splits if_splits)
  show ?case
  proof (cases "exists_reply e ?h2")
    case (Inl err)
    with run show ?thesis by simp
  next
    case (Inr found)
    show ?thesis
    proof (cases found)
      case True
      with run Inr have "randomProjectName e n ?h2 = (Inr name, h')" by simp
      from Suc.IH [OF this] obtain naming where
        n: "h' = ?h2 @ naming @ [EvExists (os_homedir e @ ''/'' @ name)]"
           "list_all is_naming naming" "exists_reply e h' = Inr False"
        by blast
      let ?naming = "[EvMathRandom, EvMathRandom, EvExists (os_homedir e @ ''/'' @ nm)] @ naming"
      have "h' = h @ ?naming @ [EvExists (os_homedir e @ ''/'' @ name)]"
        using n(1) h1 by simp
      moreover have "list_all is_naming ?naming" using n(2) by simp
      ultimately show ?thesis using n(3) by blast
    next
      case False
      with run Inr have eq: "nm = name" "h' = ?h2" by auto
      have "h' = h @ [EvMathRandom, EvMathRandom] @ [EvExists (os_homedir e @ ''/'' @ name)]"
        using eq h1 by simp
      moreover have "list_all is_naming [EvMathRandom, EvMathRandom]" by simp
      moreover have "exists_reply e h' = Inr False" using Inr False eq by simp
      ultimately show ?thesis by blast
    qed
  qed
qed

subsection \<open>Evaluating the sample environments\<close>

lemmas sample_defs = calm_env_def calm_answer_def stat_of_def demo_icie_def

lemmas run_defs = task_defs inputbox_def respondAuthreq_def ci_init_def ci_submit_def
  requiresCompilation_def assureCompiled_def triggerBuild_def triggerTest_def assureTested_def
  triggerSubmit_def askDescriptionURL_def triggerInit_def randomName_def choice_def
  double_times_def double_floor_def round_half_even_def
  js_string_def adjectives_def animals_def source_def executable_def testsDirectory_def
  url_prompt_def username_prompt_def password_prompt_def cancelled_def Let_def

section \<open>The frame decoder on documents\<close>

subsection \<open>The scan on balanced text\<close>

lemma attach_all_Nil [simp]: "attach_all [] found = found"
  by (cases found) (auto simp add: attach_all_def)

lemma attach_attach_all [simp]: "attach c (attach_all pre found) = attach_all (c # pre) found"
  by (cases found) (auto simp add: attach_def attach_all_def)

lemma attach_all_append [simp]:
  "attach_all pre (attach_all mid found) = attach_all (pre @ mid) found"
  by (cases found) (auto simp add: attach_all_def)

lemma attach_all_Some [simp]: "attach_all pre (Some (frame, rest)) = Some (pre @ frame, rest)"
  by (simp add: attach_all_def)

lemma attach_eq_attach_all: "attach c found = attach_all [c] found"
  by (cases found) (auto simp add: attach_def attach_all_def)

lemma scan_literal:
  "literal_chars s \<Longrightarrow>
   scan depth InString (s @ quote # rest) = attach_all (s @ [quote]) (scan depth Structural rest)"
proof (induction s rule: literal_chars.induct)
  case literal_end
  show ?case by (simp add: attach_eq_attach_all)
next
  case (literal_plain c s)
  then show ?case by simp
next
  case (literal_escape s c)
  then show ?case
  proof (cases "s @ quote # rest")
    case Nil
    then show ?thesis by simp
  next
    case (Cons x xs)
    with literal_escape show ?thesis by (simp add: quote_def backslash_def)
  qed
qed

lemma scan_nested:
  "nested xs \<Longrightarrow> 0 < depth \<Longrightarrow>
   scan depth Structural (xs @ rest) = attach_all xs (scan depth Structural rest)"
proof (induction xs arbitrary: depth rest rule: nested.induct)
  case nested_end
  show ?case by simp
next
  case (nested_plain c xs)
  then show ?case by simp
next
  case (nested_literal s xs)
  then show ?case by (simp add: scan_literal)
next
  case (nested_bracket a ys b xs)
  have ab: "a \<noteq> quote" "b \<noteq> quote" "\<not> opens b"
    using \<open>opens a\<close> \<open>closes b\<close> by (auto simp add: opens_def closes_def quote_def)
  have 1: "scan depth Structural ((a # ys @ b # xs) @ rest) =
      attach a (scan (Suc depth) Structural (ys @ b # xs @ rest))"
    using ab \<open>opens a\<close> by simp
  have 2: "scan (Suc depth) Structural (ys @ b # xs @ rest) =
      attach_all ys (scan (Suc depth) Structural (b # xs @ rest))"
    using nested_bracket.IH(1) [of "Suc depth" "b # xs @ rest"] by simp
  have 3: "scan (Suc depth) Structural (b # xs @ rest) =
      attach b (scan depth Structural (xs @ rest))"
    using ab \<open>closes b\<close> \<open>0 < depth\<close> by simp
  have 4: "scan depth Structural (xs @ rest) = attach_all xs (scan depth Structural rest)"
    using nested_bracket.IH(2) [OF \<open>0 < depth\<close>] .
  show ?case
    unfolding 1 2 3 4 by (simp add: attach_eq_attach_all)
qed

lemma scan_bracket:
  assumes "opens a" "nested ys" "closes b"
  shows "scan 0 Structural (a # ys @ b # rest) = Some (a # ys @ [b], rest)"
proof -
  have ab: "a \<noteq> quote" "b \<noteq> quote" "\<not> opens b"
    using assms by (auto simp add: opens_def closes_def quote_def)
  have 1: "scan 0 Structural (a # ys @ b # rest) = attach a (scan 1 Structural (ys @ b # rest))"
    using ab assms(1) by simp
  have 2: "scan 1 Structural (ys @ b # rest) = attach_all ys (scan 1 Structural (b # rest))"
    using scan_nested [OF assms(2), of 1] by simp
  have 3: "scan 1 Structural (b # rest) = Some ([b], rest)"
    using ab assms(3) by simp
  show ?thesis
    unfolding 1 2 3 by (simp add: attach_eq_attach_all)
qed

lemma scan_append:
  "scan depth mode bytes = Some (frame, rest) \<Longrightarrow>
   scan depth mode (bytes @ extra) = Some (frame, rest @ extra)"
  by (induction depth mode bytes arbitrary: frame rest rule: scan.induct)
    (auto simp add: attach_def split: if_splits)

subsection \<open>Documents are balanced\<close>

lemma nested_unstructured: "list_all unstructured xs \<Longrightarrow> nested xs"
  by (induction xs) (auto simp add: unstructured_def intro: nested.intros)

lemma nested_append: "nested xs \<Longrightarrow> nested ys \<Longrightarrow> nested (xs @ ys)"
proof (induction xs rule: nested.induct)
  case nested_end
  then show ?case by simp
next
  case (nested_plain c xs)
  then show ?case by (simp add: nested.nested_plain)
next
  case (nested_literal s xs)
  then show ?case using nested.nested_literal [of s "xs @ ys"] by simp
next
  case (nested_bracket a zs b xs)
  then show ?case using nested.nested_bracket [of a zs b "xs @ ys"] by simp
qed

lemma is_ws_unstructured: "is_ws c \<Longrightarrow> unstructured c"
  by (auto simp add: is_ws_def unstructured_def quote_def opens_def closes_def)

lemma digit_unstructured: "digit c \<Longrightarrow> unstructured c"
  by (auto simp add: digit_def unstructured_def quote_def opens_def closes_def)

lemma nested_ws: "json_ws w \<Longrightarrow> nested w"
  by (rule nested_unstructured) (auto simp add: json_ws_def list_all_iff is_ws_unstructured)

lemma unstructured_digits: "json_digits ds \<Longrightarrow> list_all unstructured ds"
  by (auto simp add: json_digits_def list_all_iff digit_unstructured)

lemma unstructured_number: "json_number n \<Longrightarrow> list_all unstructured n \<and> n \<noteq> []"
proof (induction rule: json_number.induct)
  case (number sign whole fraction exponent)
  have u: "unstructured (CHR ''-'')" "unstructured (CHR ''+'')" "unstructured (CHR ''.'')"
    "unstructured (CHR ''e'')" "unstructured (CHR ''E'')" "unstructured (CHR ''0'')"
    by (simp_all add: unstructured_def quote_def opens_def closes_def)
  from number(1) u have "list_all unstructured sign" by auto
  moreover from number(2) u have "list_all unstructured whole \<and> whole \<noteq> []"
    by (auto simp add: unstructured_digits json_digits_def)
  moreover from number(3) u have "list_all unstructured fraction"
    by (auto simp add: unstructured_digits)
  moreover from number(4) u have "list_all unstructured exponent"
    by (auto simp add: unstructured_digits)
  ultimately show ?case by simp
qed

lemma hex_digit_plain: "hex_digit c \<Longrightarrow> c \<noteq> quote \<and> c \<noteq> backslash"
  by (auto simp add: hex_digit_def quote_def backslash_def)

lemma literal_json_chars: "json_chars s \<Longrightarrow> literal_chars s"
proof (induction rule: json_chars.induct)
  case chars_end
  show ?case by (rule literal_end)
next
  case (chars_plain c s)
  then show ?case by (simp add: literal_plain)
next
  case (chars_escape c s)
  then show ?case by (simp add: literal_escape)
next
  case (chars_unicode a b c d s)
  have "a \<noteq> quote \<and> a \<noteq> backslash" "b \<noteq> quote \<and> b \<noteq> backslash"
    "c \<noteq> quote \<and> c \<noteq> backslash" "d \<noteq> quote \<and> d \<noteq> backslash"
    using chars_unicode(1-4) by (simp_all add: hex_digit_plain)
  with chars_unicode.IH have "literal_chars (a # b # c # d # s)"
    by (simp add: literal_plain)
  then show ?case by (rule literal_escape)
qed

lemma nested_json:
  "(json_value v \<longrightarrow> nested v) \<and> (json_elements es \<longrightarrow> nested es) \<and>
   (json_members ms \<longrightarrow> nested ms)"
proof -
  have comma: "nested (CHR '','' # xs)" if "nested xs" for xs
    using that by (intro nested_plain) (simp_all add: quote_def opens_def closes_def)
  have colon: "nested (CHR '':'' # xs)" if "nested xs" for xs
    using that by (intro nested_plain) (simp_all add: quote_def opens_def closes_def)
  have string: "nested (quote # k @ quote # xs)" if "json_chars k" "nested xs" for k xs
    using that by (intro nested_literal literal_json_chars)
  have array: "nested (CHR ''['' # xs @ '']'')" if "nested xs" for xs
    using nested_bracket [of "CHR ''[''" xs "CHR '']''" "[]"] that
    by (simp add: opens_def closes_def nested_end)
  have object: "nested (CHR ''{'' # xs @ ''}'')" if "nested xs" for xs
    using nested_bracket [of "CHR ''{''" xs "CHR ''}''" "[]"] that
    by (simp add: opens_def closes_def nested_end)
  have word: "nested ''null''" "nested ''true''" "nested ''false''"
    by (rule nested_unstructured, simp add: unstructured_def quote_def opens_def closes_def)+
  have member: "nested (w1 @ quote # k @ quote # w2 @ CHR '':'' # w3 @ x @ w4 @ xs)"
    if "json_ws w1" "json_chars k" "json_ws w2" "json_ws w3" "nested x" "json_ws w4" "nested xs"
    for w1 k w2 w3 x w4 xs
  proof -
    have "nested (w4 @ xs)"
      by (rule nested_append [OF nested_ws [OF that(6)] that(7)])
    then have "nested (x @ w4 @ xs)"
      by (rule nested_append [OF that(5)])
    then have "nested (w3 @ x @ w4 @ xs)"
      by (rule nested_append [OF nested_ws [OF that(4)]])
    then have "nested (CHR '':'' # w3 @ x @ w4 @ xs)"
      by (rule colon)
    then have "nested (w2 @ CHR '':'' # w3 @ x @ w4 @ xs)"
      by (rule nested_append [OF nested_ws [OF that(3)]])
    then have "nested (quote # k @ quote # w2 @ CHR '':'' # w3 @ x @ w4 @ xs)"
      by (rule string [OF that(2)])
    then show ?thesis
      by (rule nested_append [OF nested_ws [OF that(1)]])
  qed
  have element: "nested (w1 @ x @ w2 @ xs)"
    if "json_ws w1" "nested x" "json_ws w2" "nested xs" for w1 x w2 xs
  proof -
    have "nested (w2 @ xs)"
      by (rule nested_append [OF nested_ws [OF that(3)] that(4)])
    then have "nested (x @ w2 @ xs)"
      by (rule nested_append [OF that(2)])
    then show ?thesis
      by (rule nested_append [OF nested_ws [OF that(1)]])
  qed
  have "json_value v \<Longrightarrow> nested v" "json_elements es \<Longrightarrow> nested es"
    "json_members ms \<Longrightarrow> nested ms"
  proof (induction rule: json_value_json_elements_json_members.inducts)
    case (value_number n)
    then show ?case by (simp add: unstructured_number nested_unstructured)
  next
    case (value_string s)
    then show ?case using string [of s "[]"] by (simp add: nested_end)
  next
    case (elements_last w1 v w2)
    then show ?case using element [of w1 v w2 "[]"] by (simp add: nested_end)
  next
    case (elements_more w1 v w2 es)
    then show ?case using element [of w1 v w2 "CHR '','' # es"] by (simp add: comma)
  next
    case (members_last w1 k w2 w3 v w4)
    then show ?case using member [of w1 k w2 w3 v w4 "[]"] by (simp add: nested_end)
  next
    case (members_more w1 k w2 w3 v w4 ms)
    then show ?case using member [of w1 k w2 w3 v w4 "CHR '','' # ms"] by (simp add: comma)
  qed (simp_all add: nested_ws array object word)
  then show ?thesis by blast
qed

lemma document_bracket:
  assumes "json_document d"
  shows "\<exists>a ys b. d = a # ys @ [b] \<and> opens a \<and> nested ys \<and> closes b"
proof -
  from assms obtain c cs where v: "json_value d" and d: "d = c # cs" and c: "opens c"
    by (auto simp add: json_document_def)
  from v show ?thesis
  proof (cases rule: json_value.cases)
    case value_number
    with unstructured_number [of d] d c show ?thesis by (simp add: unstructured_def)
  next
    case (value_string s)
    with d c show ?thesis by (auto simp add: opens_def quote_def)
  next
    case (value_empty_array w)
    then show ?thesis by (auto simp add: opens_def closes_def nested_ws)
  next
    case (value_array es)
    then show ?thesis using nested_json [of d es es] by (auto simp add: opens_def closes_def)
  next
    case (value_empty_object w)
    then show ?thesis by (auto simp add: opens_def closes_def nested_ws)
  next
    case (value_object ms)
    then show ?thesis using nested_json [of d ms ms] by (auto simp add: opens_def closes_def)
  qed (use d c in \<open>auto simp add: opens_def\<close>)
qed

subsection \<open>Reading the buffer\<close>


lemma frames_cong:
  assumes "dropWhile is_ws buf = dropWhile is_ws buf'"
  shows "frames buf = frames buf'"
  by (simp only: frames.simps [of buf] frames.simps [of buf'] assms)

lemma frames_Nil:
  assumes "dropWhile is_ws buf = []"
  shows "frames buf = ([], [])"
  by (simp only: frames.simps [of buf] assms list.case)

lemma frames_garbage:
  assumes "dropWhile is_ws buf = c # cs" "\<not> opens c"
  shows "frames buf = ([], c # cs)"
  by (simp only: frames.simps [of buf] assms list.case if_False)

lemma frames_pending:
  assumes "dropWhile is_ws buf = c # cs" "opens c" "scan 0 Structural (c # cs) = None"
  shows "frames buf = ([], c # cs)"
  by (simp only: frames.simps [of buf] assms list.case if_True option.case)

lemma frames_frame:
  assumes "dropWhile is_ws buf = c # cs" "opens c"
    and "scan 0 Structural (c # cs) = Some (frame, rest)"
  shows "frames buf = (frame # fst (frames rest), snd (frames rest))"
  by (simp only: frames.simps [of buf] assms list.case if_True option.case prod.case
      Let_def case_prod_unfold fst_conv snd_conv)

lemma dropWhile_ws_append:
  assumes "dropWhile is_ws buf = c # cs"
  shows "dropWhile is_ws (buf @ extra) = c # cs @ extra"
proof -
  from assms have c: "\<not> is_ws c" using hd_dropWhile [of is_ws buf] by auto
  have "takeWhile is_ws buf @ dropWhile is_ws buf = buf" by (rule takeWhile_dropWhile_id)
  then have "buf @ extra = takeWhile is_ws buf @ (c # cs @ extra)"
    unfolding assms by (metis append_assoc append_Cons)
  then have "dropWhile is_ws (buf @ extra) =
      dropWhile is_ws (takeWhile is_ws buf @ (c # cs @ extra))"
    by (rule arg_cong)
  also have "\<dots> = dropWhile is_ws (c # cs @ extra)"
    by (rule dropWhile_append2) (auto dest: set_takeWhileD)
  also have "\<dots> = c # cs @ extra" using c by simp
  finally show ?thesis .
qed

lemma frames_ws: "json_ws w \<Longrightarrow> frames (w @ buf) = frames buf"
  by (rule frames_cong) (simp add: json_ws_def list_all_iff dropWhile_append2)

lemma frames_append:
  "frames (buf @ extra) =
     (fst (frames buf) @ fst (frames (snd (frames buf) @ extra)),
      snd (frames (snd (frames buf) @ extra)))"
proof (induction buf rule: frames.induct)
  case (1 buf)
  show ?case
  proof (cases "dropWhile is_ws buf")
    case Nil
    then have "\<forall>c \<in> set buf. is_ws c" by (simp add: dropWhile_eq_Nil_conv)
    then have "frames (buf @ extra) = frames extra"
      by (intro frames_cong) (simp add: dropWhile_append2)
    with Nil show ?thesis by (simp add: frames_Nil)
  next
    case (Cons c cs)
    then have "\<not> is_ws c" using hd_dropWhile [of is_ws buf] by auto
    have drop: "dropWhile is_ws (buf @ extra) = c # cs @ extra"
      using Cons by (rule dropWhile_ws_append)
    have same: "frames (buf @ extra) = frames ((c # cs) @ extra)"
      by (rule frames_cong) (simp add: drop \<open>\<not> is_ws c\<close>)
    show ?thesis
    proof (cases "opens c")
      case False
      with Cons same show ?thesis by (simp add: frames_garbage)
    next
      case True
      show ?thesis
      proof (cases "scan 0 Structural (c # cs)")
        case None
        with Cons True same show ?thesis by (simp add: frames_pending)
      next
        case (Some found)
        obtain frame rest where found: "found = (frame, rest)" by (cases found)
        with Some have s: "scan 0 Structural (c # cs) = Some (frame, rest)" by simp
        then have "scan 0 Structural ((c # cs) @ extra) = Some (frame, rest @ extra)"
          by (rule scan_append)
        then have "frames (buf @ extra) =
            (frame # fst (frames (rest @ extra)), snd (frames (rest @ extra)))"
          using drop True by (intro frames_frame) simp_all
        moreover have "frames buf = (frame # fst (frames rest), snd (frames rest))"
          using Cons True s by (rule frames_frame)
        moreover have "frames (rest @ extra) =
            (fst (frames rest) @ fst (frames (snd (frames rest) @ extra)),
             snd (frames (snd (frames rest) @ extra)))"
          using "1.IH" [OF Cons True s [unfolded found [symmetric]] found [symmetric]] .
        ultimately show ?thesis by simp
      qed
    qed
  qed
qed

lemma frames_settled: "frames (snd (frames buf)) = ([], snd (frames buf))"
  using frames_append [of buf "[]"] by (simp add: prod_eq_iff)

lemma opens_not_ws: "opens c \<Longrightarrow> \<not> is_ws c"
  by (auto simp add: opens_def is_ws_def)

lemma frames_document:
  assumes "json_document d"
  shows "frames (d @ buf) = (d # fst (frames buf), snd (frames buf))"
proof -
  from document_bracket [OF assms] obtain a ys b where
    d: "d = a # ys @ [b]" and a: "opens a" and ys: "nested ys" and b: "closes b"
    by blast
  have drop: "dropWhile is_ws (d @ buf) = a # ys @ b # buf"
    using d opens_not_ws [OF a] by simp
  have "scan 0 Structural (a # ys @ b # buf) = Some (d, buf)"
    using scan_bracket [OF a ys b, of buf] d by simp
  with drop a show ?thesis by (rule frames_frame)
qed

lemma frames_wire:
  assumes "\<forall>(d, w) \<in> set docs. json_document d \<and> json_ws w"
  shows "frames (wire docs @ buf) = (map fst docs @ fst (frames buf), snd (frames buf))"
  using assms
proof (induction docs)
  case Nil
  show ?case by (simp add: wire_def)
next
  case (Cons dw docs)
  obtain d w where dw: "dw = (d, w)" by (cases dw)
  with Cons.prems have d: "json_document d" and w: "json_ws w" by simp_all
  have "wire (dw # docs) @ buf = d @ (w @ (wire docs @ buf))"
    by (simp add: wire_def dw)
  then have "frames (wire (dw # docs) @ buf) = frames (d @ (w @ (wire docs @ buf)))"
    by (rule arg_cong)
  also have "\<dots> = (d # fst (frames (w @ (wire docs @ buf))), snd (frames (w @ (wire docs @ buf))))"
    by (rule frames_document [OF d])
  also have "frames (w @ (wire docs @ buf)) = frames (wire docs @ buf)"
    by (rule frames_ws [OF w])
  also have "frames (wire docs @ buf) = (map fst docs @ fst (frames buf), snd (frames buf))"
    using Cons by simp
  finally show ?case by (simp add: dw)
qed

lemma frames_partial:
  assumes "json_partial p"
  shows "frames p = ([], p)"
proof (cases p)
  case Nil
  then show ?thesis by (simp add: frames_Nil)
next
  case (Cons c cs)
  from assms obtain q where q: "q \<noteq> []" and doc: "json_document (p @ q)"
    by (auto simp add: json_partial_def)
  from document_bracket [OF doc] obtain a ys b where
    d: "p @ q = a # ys @ [b]" and a: "opens a" and ys: "nested ys" and b: "closes b"
    by blast
  from d Cons have c: "c = a" by simp
  have whole: "scan 0 Structural (p @ q) = Some (p @ q, [])"
    using scan_bracket [OF a ys b, of "[]"] d by simp
  have "scan 0 Structural p = None"
  proof (cases "scan 0 Structural p")
    case (Some found)
    obtain frame rest where "found = (frame, rest)" by (cases found)
    with Some have "scan 0 Structural (p @ q) = Some (frame, rest @ q)"
      by (simp add: scan_append)
    with whole q show ?thesis by simp
  qed simp
  moreover have "dropWhile is_ws p = c # cs"
    using Cons c opens_not_ws [OF a] by simp
  ultimately show ?thesis using a c Cons by (simp add: frames_pending)
qed

subsection \<open>Chunks\<close>

lemma recv_buffers:
  assumes "frames (buffer (parser this)) = ([], buffer (parser this))"
  shows "recv this (map Buffer chunks) =
     Inr (fst (frames (buffer (parser this) @ concat chunks)),
          this\<lparr>parser := (parser this)\<lparr>buffer := snd (frames (buffer (parser this) @ concat chunks))\<rparr>\<rparr>)"
  using assms
proof (induction chunks arbitrary: this)
  case Nil
  then show ?case by simp
next
  case (Cons bytes chunks)
  let ?buf = "buffer (parser this) @ bytes"
  let ?bridge = "this\<lparr>parser := (parser this)\<lparr>buffer := snd (frames ?buf)\<rparr>\<rparr>"
  have read: "parser_read (parser_write (parser this) bytes) =
      (fst (frames ?buf), (parser this)\<lparr>buffer := snd (frames ?buf)\<rparr>)"
    by (simp add: parser_read_def parser_write_def case_prod_unfold Let_def)
  have "frames (buffer (parser ?bridge)) = ([], buffer (parser ?bridge))"
    by (simp add: frames_settled)
  from Cons.IH [OF this]
  have later: "recv ?bridge (map Buffer chunks) =
      Inr (fst (frames (snd (frames ?buf) @ concat chunks)),
           this\<lparr>parser := (parser this)\<lparr>buffer := snd (frames (snd (frames ?buf) @ concat chunks))\<rparr>\<rparr>)"
    by simp
  have all: "frames (buffer (parser this) @ bytes @ concat chunks) =
      (fst (frames ?buf) @ fst (frames (snd (frames ?buf) @ concat chunks)),
       snd (frames (snd (frames ?buf) @ concat chunks)))"
    using frames_append [of ?buf "concat chunks"] by simp
  show ?case
    by (simp add: read later all)
qed

subsection \<open>The sample documents\<close>

lemma json_chars_plain:
  "list_all (\<lambda>c. c \<noteq> quote \<and> c \<noteq> backslash \<and> 32 \<le> (of_char c :: nat)) s \<Longrightarrow> json_chars s"
  by (induction s) (auto intro: json_chars.intros)

lemma status_doc_valid: "json_document status_doc"
proof -
  have k: "json_chars ''tag''" "json_chars ''status''" "json_chars ''message''"
    by (rule json_chars_plain, simp add: quote_def backslash_def)+
  have ws: "json_ws []" by (simp add: json_ws_def)
  have "json_value (quote # ''status'' @ [quote])"
    by (rule value_string [OF k(2)])
  from members_more [OF ws k(1) ws ws this ws
      members_last [OF ws k(3) ws ws value_null ws]]
  have "json_members (tl (butlast status_doc))"
    by (simp add: status_doc_def quote_def)
  from value_object [OF this] show ?thesis
    by (simp add: json_document_def status_doc_def opens_def)
qed

lemma list_doc_valid: "json_document list_doc"
proof -
  have "json_chars [CHR '']'']"
    by (rule json_chars_plain) (simp add: quote_def backslash_def)
  then have "json_chars [backslash, quote, CHR '']'']"
    by (rule chars_escape [rotated]) simp
  then have "json_chars [CHR ''}'', backslash, quote, CHR '']'']"
    by (rule chars_plain [rotated 3]) (simp_all add: quote_def backslash_def)
  then have s: "json_value (quote # [CHR ''}'', backslash, quote, CHR '']''] @ [quote])"
    by (rule value_string)
  have ws: "json_ws []" by (simp add: json_ws_def)
  have "json_number ([] @ ''1'' @ [] @ [])"
    by (rule number) (simp_all add: json_digits_def digit_def)
  then have "json_value ''1''" by (simp add: value_number)
  from elements_more [OF ws this ws elements_last [OF ws s ws]]
  have "json_elements (tl (butlast list_doc))"
    by (simp add: list_doc_def quote_def backslash_def)
  from value_array [OF this] show ?thesis
    by (simp add: json_document_def list_doc_def opens_def)
qed

section \<open>The claims\<close>

subsection \<open>Path derivation\<close>

text \<open>
  C7. The three paths are functions of the base path alone: the source path is
  \<open>base/main.cpp\<close>, the executable path is the source path with its last four
  characters replaced by \<open>.e\<close>, which is \<open>base/main.e\<close>, and the tests directory is
  \<open>base/tests\<close>.
\<close>

theorem directory_paths:
  "source \<lparr>base = b\<rparr> = b @ ''/main.cpp'' \<and>
   executable \<lparr>base = b\<rparr> = take (length (source \<lparr>base = b\<rparr>) - 4) (source \<lparr>base = b\<rparr>) @ ''.e'' \<and>
   executable \<lparr>base = b\<rparr> = b @ ''/main.e'' \<and>
   testsDirectory \<lparr>base = b\<rparr> = b @ ''/tests''"
  by (simp add: source_def executable_def testsDirectory_def)

subsection \<open>Freshness\<close>

text \<open>
  C1, as the code has it. The source is stat'ed outside the \<open>try\<close> block. When that
  stat succeeds, the check returns true exactly when the stat of the executable fails
  (the executable is absent) or the source's modification time is strictly greater than
  the executable's, and false when the executable exists and is at least as new. When
  the source cannot be stat'ed, the check does not return: it fails with the error of
  that stat, whatever the state of the executable.
\<close>

theorem requiresCompilation_freshness:
  "(stat_reply e (h @ [EvSaveAll, EvStat (source (dir this))]) = Inr statsrc \<longrightarrow>
      fst (requiresCompilation e this h) =
        Inr (case stat_reply e (h @ [EvSaveAll, EvStat (source (dir this)),
                                      EvStat (executable (dir this))]) of
               Inl err \<Rightarrow> True
             | Inr statexe \<Rightarrow> mtime statexe < mtime statsrc)) \<and>
   (stat_reply e (h @ [EvSaveAll, EvStat (source (dir this))]) = Inl err \<longrightarrow>
      fst (requiresCompilation e this h) = Inl err)"
  by (auto simp add: requiresCompilation_run Let_def split: sum.splits)

theorem requiresCompilation_freshness_witness:
  "fst (requiresCompilation unbuilt_env demo_icie []) = Inr True \<and>
   fst (requiresCompilation stale_env demo_icie []) = Inr True \<and>
   fst (requiresCompilation calm_env demo_icie []) = Inr False \<and>
   fst (requiresCompilation empty_env demo_icie []) = Inl (Rejection ''ENOENT'')"
proof -
  have "stat_reply unbuilt_env ([] @ [EvSaveAll, EvStat (source (dir demo_icie))]) = Inr \<lparr>mtime = 20\<rparr>"
    by (simp add: unbuilt_env_def sample_defs source_def executable_def)
  from requiresCompilation_freshness [THEN conjunct1, rule_format, OF this]
  have 1: "fst (requiresCompilation unbuilt_env demo_icie []) = Inr True"
    by (simp add: unbuilt_env_def sample_defs source_def executable_def)
  have "stat_reply stale_env ([] @ [EvSaveAll, EvStat (source (dir demo_icie))]) = Inr \<lparr>mtime = 20\<rparr>"
    by (simp add: stale_env_def sample_defs source_def executable_def)
  from requiresCompilation_freshness [THEN conjunct1, rule_format, OF this]
  have 2: "fst (requiresCompilation stale_env demo_icie []) = Inr True"
    by (simp add: stale_env_def sample_defs source_def executable_def)
  have "stat_reply calm_env ([] @ [EvSaveAll, EvStat (source (dir demo_icie))]) = Inr \<lparr>mtime = 10\<rparr>"
    by (simp add: sample_defs source_def executable_def)
  from requiresCompilation_freshness [THEN conjunct1, rule_format, OF this]
  have 3: "fst (requiresCompilation calm_env demo_icie []) = Inr False"
    by (simp add: sample_defs source_def executable_def)
  have "stat_reply empty_env ([] @ [EvSaveAll, EvStat (source (dir demo_icie))]) = Inl (Rejection ''ENOENT'')"
    by (simp add: empty_env_def sample_defs source_def executable_def)
  from requiresCompilation_freshness [THEN conjunct2, rule_format, OF this]
  have 4: "fst (requiresCompilation empty_env demo_icie []) = Inl (Rejection ''ENOENT'')" .
  from 1 2 3 4 show ?thesis by simp
qed

text \<open>
  C1, as it is written, promises true whenever the executable is absent. In a workspace
  that holds neither file the executable is absent, and the check fails on the stat of
  the source instead of returning true.
\<close>

theorem requiresCompilation_counterexample:
  "stat_reply empty_env [EvSaveAll, EvStat ''/w/main.cpp'', EvStat ''/w/main.e''] = Inl (Rejection ''ENOENT'') \<and>
   requiresCompilation empty_env demo_icie [] =
     (Inl (Rejection ''ENOENT''), [EvSaveAll, EvStat ''/w/main.cpp''])"
  by (simp add: empty_env_def sample_defs run_defs)

subsection \<open>The flush before the freshness check\<close>

text \<open>
  C10. The first thing the freshness check does, and so the first thing a test and a
  submit do, is to save all open documents: \<open>EvSaveAll\<close> is the first event of each of
  them, before any \<open>EvStat\<close>. When the check answers that no build is needed, making
  sure the program is compiled consists of the flush and the two stats only: the flush
  has happened although nothing is built.
\<close>

theorem flush_before_freshness:
  "(\<exists>evs. snd (requiresCompilation e this h) = h @ EvSaveAll # evs) \<and>
   (\<exists>evs. snd (triggerTest e this h) = h @ EvSaveAll # evs) \<and>
   (\<exists>evs. snd (triggerSubmit e this h) = h @ EvSaveAll # evs) \<and>
   (fst (requiresCompilation e this h) = Inr False \<longrightarrow>
      snd (assureCompiled e this h) =
        h @ [EvSaveAll, EvStat (source (dir this)), EvStat (executable (dir this))])"
proof -
  have 1: "\<exists>evs. snd (requiresCompilation e this h) = h @ EvSaveAll # evs"
    by (simp add: requiresCompilation_run Let_def split: sum.splits)
  have 2: "\<exists>evs. snd (triggerTest e this h) = h @ EvSaveAll # evs" for h
    using triggerTest_events [of e this h] by blast
  have "\<exists>evs. snd (assureTested e this h) = h @ EvSaveAll # evs" for h
    unfolding assureTested_def
    by (rule await_first [OF 2]) (simp add: reject_def resolve_def)
  then have 3: "\<exists>evs. snd (triggerSubmit e this h) = h @ EvSaveAll # evs"
    unfolding triggerSubmit_def
    by (rule await_first)
      (auto simp add: ci_submit_def respondAuthreq_run task_defs Let_def
        split: sum.splits option.splits)
  have 4: "fst (requiresCompilation e this h) = Inr False \<longrightarrow>
      snd (assureCompiled e this h) =
        h @ [EvSaveAll, EvStat (source (dir this)), EvStat (executable (dir this))]"
    by (auto simp add: assureCompiled_def requiresCompilation_run await_def resolve_def Let_def
        split: sum.splits)
  from 1 2 3 4 show ?thesis by blast
qed

theorem flush_before_freshness_witness:
  "fst (requiresCompilation calm_env demo_icie []) = Inr False \<and>
   snd (assureCompiled calm_env demo_icie []) =
     [EvSaveAll, EvStat ''/w/main.cpp'', EvStat ''/w/main.e'']"
proof -
  have run: "fst (requiresCompilation calm_env demo_icie []) = Inr False"
    by (simp add: sample_defs run_defs)
  from flush_before_freshness [of calm_env demo_icie "[]"] run
  have "snd (assureCompiled calm_env demo_icie []) =
      [] @ [EvSaveAll, EvStat (source (dir demo_icie)), EvStat (executable (dir demo_icie))]"
    by blast
  with run show ?thesis by (simp add: demo_icie_def source_def executable_def)
qed

subsection \<open>Submit stops at a failed test\<close>

text \<open>
  C2. When the test step of a submit reports failure, the submit fails with the error
  \<open>Not all tests passed\<close>; it ends where the test ended, so no submit command has been
  sent to the worker and the manifest has not been loaded.
\<close>

theorem submit_hard_stop:
  assumes "fst (triggerTest e this h) = Inr False"
  shows "fst (triggerSubmit e this h) = Inl (ThrowString ''Not all tests passed'') \<and>
         snd (triggerSubmit e this h) = snd (triggerTest e this h) \<and>
         (\<exists>evs. snd (triggerSubmit e this h) = h @ evs \<and>
                filter is_submit evs = [] \<and> filter is_manifest_load evs = [])"
proof -
  have run: "triggerSubmit e this h =
      (Inl (ThrowString ''Not all tests passed''), snd (triggerTest e this h))"
    by (simp add: triggerSubmit_def await_def assureTested_failed [OF assms])
  obtain evs where evs: "snd (triggerTest e this h) = h @ EvSaveAll # evs"
    and sub: "set evs \<subseteq> {EvSaveAll, EvStat (source (dir this)), EvStat (executable (dir this)),
                 EvCiBuild (source (dir this)),
                 EvCiTest (executable (dir this)) (testsDirectory (dir this))}"
    using triggerTest_events by blast
  from sub have "filter is_submit (EvSaveAll # evs) = []"
    "filter is_manifest_load (EvSaveAll # evs) = []"
    by (auto simp add: filter_empty_conv)
  with run evs show ?thesis by simp
qed

theorem submit_hard_stop_witness:
  "fst (triggerTest failing_env demo_icie []) = Inr False \<and>
   triggerSubmit failing_env demo_icie [] =
     (Inl (ThrowString ''Not all tests passed''),
      [EvSaveAll, EvStat ''/w/main.cpp'', EvStat ''/w/main.e'', EvCiTest ''/w/main.e'' ''/w/tests''])"
proof -
  have test: "triggerTest failing_env demo_icie [] =
      (Inr False, [EvSaveAll, EvStat ''/w/main.cpp'', EvStat ''/w/main.e'',
                   EvCiTest ''/w/main.e'' ''/w/tests''])"
    by (simp add: failing_env_def sample_defs run_defs)
  then have failed: "fst (triggerTest failing_env demo_icie []) = Inr False" by simp
  from submit_hard_stop [OF failed] test
  have "triggerSubmit failing_env demo_icie [] =
     (Inl (ThrowString ''Not all tests passed''),
      [EvSaveAll, EvStat ''/w/main.cpp'', EvStat ''/w/main.e'', EvCiTest ''/w/main.e'' ''/w/tests''])"
    by (simp add: prod_eq_iff)
  with failed show ?thesis by simp
qed

subsection \<open>The name of a new project\<close>

text \<open>
  C5. With \<open>Math.random()\<close> a double in \<open>[0, 1)\<close>: each of the two word lists has ten words.
  A drawn name costs two draws; the first draw, times ten and rounded down, is the index
  of its adjective, the second draw that of its animal, both are below ten, and the name
  is the adjective, a hyphen and the animal. A round of the search draws a name and checks
  the existence of its path under the home directory. In the search with five tries, a
  name whose path does not exist is returned as soon as it is drawn, after fewer than
  five collisions; after five collisions in a row the search fails with
  \<open>failed to find free project name\<close>.
\<close>

theorem randomProjectName_five_tries:
  assumes "\<forall>h. is_double (random_reply e h) \<and> below_one (random_reply e h)"
  shows "length adjectives = 10 \<and> length animals = 10 \<and>
    (let i = double_floor (double_times (random_reply e (h @ [EvMathRandom])) 10);
         j = double_floor (double_times (random_reply e (h @ [EvMathRandom, EvMathRandom])) 10);
         name = adjectives ! i @ ''-'' @ animals ! j;
         checked = h @ [EvMathRandom, EvMathRandom, EvExists (os_homedir e @ ''/'' @ name)]
     in i < 10 \<and> j < 10 \<and>
        randomName e h = (name, h @ [EvMathRandom, EvMathRandom]) \<and>
        attempt e h = (name, exists_reply e checked, checked)) \<and>
    (\<forall>k hk name hk'.
        k < 5 \<and> collisions e k h = Some hk \<and> attempt e hk = (name, Inr False, hk') \<longrightarrow>
        randomProjectName e 5 h = (Inr name, hk')) \<and>
    (\<forall>h5. collisions e 5 h = Some h5 \<longrightarrow>
        randomProjectName e 5 h = (Inl (ThrowString ''failed to find free project name''), h5))"
proof -
  have a: "length adjectives = 10" and b: "length animals = 10"
    by (simp_all add: adjectives_def animals_def)
  have free: "randomProjectName e 5 h = (Inr name, hk')"
    if "k < 5" "collisions e k h = Some hk" "attempt e hk = (name, Inr False, hk')"
    for k hk name hk'
  proof -
    from that(1) have m: "k + Suc (4 - k) = 5" by arith
    from randomProjectName_collisions [OF that(2), of "Suc (4 - k)"]
    have "randomProjectName e (k + Suc (4 - k)) h = randomProjectName e (Suc (4 - k)) hk" .
    then have "randomProjectName e 5 h = randomProjectName e (Suc (4 - k)) hk"
      by (simp only: m)
    also have "\<dots> = (Inr name, hk')"
      using that(3) by (simp add: randomProjectName_Suc del: randomProjectName.simps)
    finally show ?thesis .
  qed
  then have c: "\<forall>k hk name hk'.
        k < 5 \<and> collisions e k h = Some hk \<and> attempt e hk = (name, Inr False, hk') \<longrightarrow>
        randomProjectName e 5 h = (Inr name, hk')"
    by blast
  have "randomProjectName e 5 h = (Inl (ThrowString ''failed to find free project name''), h5)"
    if "collisions e 5 h = Some h5" for h5
    using randomProjectName_collisions [OF that, of 0] by (simp add: reject_def)
  then have d: "\<forall>h5. collisions e 5 h = Some h5 \<longrightarrow>
        randomProjectName e 5 h = (Inl (ThrowString ''failed to find free project name''), h5)"
    by blast
  have draw: "(let i = double_floor (double_times (random_reply e (h @ [EvMathRandom])) 10);
         j = double_floor (double_times (random_reply e (h @ [EvMathRandom, EvMathRandom])) 10);
         name = adjectives ! i @ ''-'' @ animals ! j;
         checked = h @ [EvMathRandom, EvMathRandom, EvExists (os_homedir e @ ''/'' @ name)]
     in i < 10 \<and> j < 10 \<and>
        randomName e h = (name, h @ [EvMathRandom, EvMathRandom]) \<and>
        attempt e h = (name, exists_reply e checked, checked))"
    using randomName_run [OF assms, of h] by (simp add: attempt_def Let_def)
  from a b draw c d show ?thesis by (intro conjI)
qed

theorem randomProjectName_five_tries_witness:
  "randomName busy_env [] = (''playful-capybara'', [EvMathRandom, EvMathRandom]) \<and>
   randomName busy_env
       [EvMathRandom, EvMathRandom, EvExists ''/home/u/playful-capybara'',
        EvMathRandom, EvMathRandom, EvExists ''/home/u/playful-capybara''] =
     (''glowing-zebra'',
      [EvMathRandom, EvMathRandom, EvExists ''/home/u/playful-capybara'',
       EvMathRandom, EvMathRandom, EvExists ''/home/u/playful-capybara'',
       EvMathRandom, EvMathRandom]) \<and>
   randomProjectName crowded_env 5 [] =
     (Inl (ThrowString ''failed to find free project name''),
      [EvMathRandom, EvMathRandom, EvExists ''/home/u/playful-capybara'',
       EvMathRandom, EvMathRandom, EvExists ''/home/u/playful-capybara'',
       EvMathRandom, EvMathRandom, EvExists ''/home/u/playful-capybara'',
       EvMathRandom, EvMathRandom, EvExists ''/home/u/playful-capybara'',
       EvMathRandom, EvMathRandom, EvExists ''/home/u/playful-capybara'']) \<and>
   randomProjectName busy_env 5 [] =
     (Inr ''glowing-zebra'',
      [EvMathRandom, EvMathRandom, EvExists ''/home/u/playful-capybara'',
       EvMathRandom, EvMathRandom, EvExists ''/home/u/playful-capybara'',
       EvMathRandom, EvMathRandom, EvExists ''/home/u/glowing-zebra''])"
proof -
  let ?round = "[EvMathRandom, EvMathRandom, EvExists ''/home/u/playful-capybara'']"
  let ?zero = "\<lparr>significand = 0, binary_exponent = 0\<rparr>"
  let ?seven_tenths = "\<lparr>significand = 6305039478318694, binary_exponent = - 53\<rparr>"
  have crowded: "\<forall>h. is_double (random_reply crowded_env h) \<and> below_one (random_reply crowded_env h)"
    by (simp add: crowded_env_def sample_defs is_double_def below_one_def)
  have busy: "\<forall>h. is_double (random_reply busy_env h) \<and> below_one (random_reply busy_env h)"
    by (simp add: busy_env_def sample_defs is_double_def below_one_def)
  have bits: "bit_length 63050394783186940 = 56"
    by (rule bit_length_eqI [of 55, simplified]) simp_all
  have zero: "double_floor (double_times ?zero 10) = 0"
    by (simp add: double_times_def double_floor_def round_half_even_def)
  have seven: "double_floor (double_times ?seven_tenths 10) = 7"
    by (simp add: double_times_def double_floor_def round_half_even_def bits)
  have early: "random_reply busy_env [EvMathRandom] = ?zero"
      "random_reply busy_env [EvMathRandom, EvMathRandom] = ?zero"
    by (simp_all add: busy_env_def sample_defs)
  have late: "random_reply busy_env (?round @ ?round @ [EvMathRandom]) = ?seven_tenths"
      "random_reply busy_env (?round @ ?round @ [EvMathRandom, EvMathRandom]) = ?seven_tenths"
    by (simp_all add: busy_env_def sample_defs)
  have home: "os_homedir busy_env = ''/home/u''" "os_homedir crowded_env = ''/home/u''"
    by (simp_all add: busy_env_def crowded_env_def sample_defs)
  have taken: "exists_reply crowded_env h = Inr True" for h
    by (simp add: crowded_env_def sample_defs)
  have still: "random_reply crowded_env h = ?zero" for h
    by (simp add: crowded_env_def sample_defs)
  have words: "adjectives ! 0 = ''playful''" "animals ! 0 = ''capybara''"
      "adjectives ! 7 = ''glowing''" "animals ! 7 = ''zebra''"
    by (simp_all add: adjectives_def animals_def)
  from randomProjectName_five_tries [OF busy, of "[]"]
  have first: "randomName busy_env [] = (''playful-capybara'', [EvMathRandom, EvMathRandom])"
    by (simp add: Let_def early zero words)
  from randomProjectName_five_tries [OF busy, of "?round @ ?round"]
  have third_name: "randomName busy_env (?round @ ?round) =
      (''glowing-zebra'', ?round @ ?round @ [EvMathRandom, EvMathRandom])"
    and third: "attempt busy_env (?round @ ?round) =
      (''glowing-zebra'',
       exists_reply busy_env
         (?round @ ?round @ [EvMathRandom, EvMathRandom, EvExists ''/home/u/glowing-zebra'']),
       ?round @ ?round @ [EvMathRandom, EvMathRandom, EvExists ''/home/u/glowing-zebra''])"
    using late seven by (simp_all add: Let_def words home)
  have free: "exists_reply busy_env
         (?round @ ?round @ [EvMathRandom, EvMathRandom, EvExists ''/home/u/glowing-zebra''])
       = Inr False"
    by (simp add: busy_env_def sample_defs)
  have one: "attempt crowded_env h = (''playful-capybara'', Inr True, h @ ?round)" for h
    using randomProjectName_five_tries [OF crowded, of h]
    by (simp add: Let_def still zero words home taken)
  have five: "collisions crowded_env 5 [] = Some (?round @ ?round @ ?round @ ?round @ ?round)"
    by (simp add: eval_nat_numeral one)
  have again: "attempt busy_env [] = (''playful-capybara'', Inr True, ?round)"
      "attempt busy_env ?round = (''playful-capybara'', Inr True, ?round @ ?round)"
    by (simp_all add: attempt_def busy_env_def sample_defs run_defs)
  have two: "collisions busy_env 2 [] = Some (?round @ ?round)"
    by (simp add: eval_nat_numeral again)
  from randomProjectName_five_tries [OF crowded, of "[]"] five
  have 1: "randomProjectName crowded_env 5 [] =
      (Inl (ThrowString ''failed to find free project name''),
       ?round @ ?round @ ?round @ ?round @ ?round)"
    by blast
  have "(2::nat) < 5" by simp
  with randomProjectName_five_tries [OF busy, of "[]"] two third [unfolded free]
  have 2: "randomProjectName busy_env 5 [] =
      (Inr ''glowing-zebra'',
       ?round @ ?round @ [EvMathRandom, EvMathRandom, EvExists ''/home/u/glowing-zebra''])"
    by blast
  from first third_name 1 2 show ?thesis by simp
qed

subsection \<open>The order of the steps of init\<close>

text \<open>
  C6. The history of a successful init is, in this order: the prompt for the task URL
  (answered with the URL); the rounds of the name search with five tries, which returns
  the project name, the last of them finding the project directory free; the creation
  of that directory; the worker's init command for the URL and the directory, followed
  by nothing when the worker raises no challenge, and by the username prompt, the
  password prompt and the response when it raises one; the save of the manifest that
  records the URL in \<open>.icie\<close> in the directory; the load of the configuration; the copy of
  the template of the configuration that was loaded to \<open>main.cpp\<close> in the directory; and
  last the command that opens the directory. Every one of these steps succeeded.
\<close>

theorem triggerInit_order:
  assumes "triggerInit e h = (Inr (), h')"
  shows "\<exists>task_url project_name project_dir naming auth (config :: config).
     project_dir = os_homedir e @ ''/'' @ project_name \<and>
     showInputBox_reply e (h @ [url_prompt]) = Some task_url \<and>
     exists_reply e (h @ [url_prompt] @ naming @ [EvExists project_dir]) = Inr False \<and>
     h' = h @ [url_prompt] @ naming @ [EvExists project_dir]
            @ [EvMkdir project_dir]
            @ [EvCiInit task_url project_dir] @ auth
            @ [EvMnfstSave (project_dir @ ''/.icie'') \<lparr>task_url = task_url\<rparr>]
            @ [EvConfLoad, EvCopy (path (template config)) (source \<lparr>base = project_dir\<rparr>)]
            @ [EvOpenFolder project_dir False] \<and>
     list_all is_naming naming \<and>
     list_all (\<lambda>ev. is_prompt ev \<or> is_auth_response ev) auth \<and>
     randomProjectName e 5 (h @ [url_prompt]) =
       (Inr project_name, h @ [url_prompt] @ naming @ [EvExists project_dir]) \<and>
     mkdir_reply e (h @ [url_prompt] @ naming @ [EvExists project_dir]
            @ [EvMkdir project_dir]) = Inr () \<and>
     (case init_authreq e (h @ [url_prompt] @ naming @ [EvExists project_dir]
            @ [EvMkdir project_dir]
            @ [EvCiInit task_url project_dir]) of
        None \<Rightarrow> auth = []
      | Some authreq \<Rightarrow>
          (\<exists>u p. auth = [username_prompt authreq, password_prompt authreq u,
                         EvAuthResponse \<lparr>username = u, password = p\<rparr>])) \<and>
     init_reply e (h @ [url_prompt] @ naming @ [EvExists project_dir]
            @ [EvMkdir project_dir]
            @ [EvCiInit task_url project_dir] @ auth) = Inr () \<and>
     mnfst_save_reply e (h @ [url_prompt] @ naming @ [EvExists project_dir]
            @ [EvMkdir project_dir]
            @ [EvCiInit task_url project_dir] @ auth
            @ [EvMnfstSave (project_dir @ ''/.icie'') \<lparr>task_url = task_url\<rparr>]) = Inr () \<and>
     conf_load_reply e (h @ [url_prompt] @ naming @ [EvExists project_dir]
            @ [EvMkdir project_dir]
            @ [EvCiInit task_url project_dir] @ auth
            @ [EvMnfstSave (project_dir @ ''/.icie'') \<lparr>task_url = task_url\<rparr>]
            @ [EvConfLoad]) = Inr config \<and>
     copy_reply e (h @ [url_prompt] @ naming @ [EvExists project_dir]
            @ [EvMkdir project_dir]
            @ [EvCiInit task_url project_dir] @ auth
            @ [EvMnfstSave (project_dir @ ''/.icie'') \<lparr>task_url = task_url\<rparr>]
            @ [EvConfLoad, EvCopy (path (template config)) (source \<lparr>base = project_dir\<rparr>)])
       = Inr () \<and>
     openFolder_reply e h' = Inr ()"
proof -
  from assms obtain task_url h1 project_name h2 h4 and config :: config where
    url: "askDescriptionURL e h = (Inr task_url, h1)" and
    name: "randomProjectName e 5 h1 = (Inr project_name, h2)" and
    mk: "mkdir_reply e (h2 @ [EvMkdir (os_homedir e @ ''/'' @ project_name)]) = Inr ()" and
    init: "ci_init e task_url (os_homedir e @ ''/'' @ project_name) (respondAuthreq e)
             (h2 @ [EvMkdir (os_homedir e @ ''/'' @ project_name)]) = (Inr (), h4)" and
    sv: "mnfst_save_reply e (h4 @ [EvMnfstSave (os_homedir e @ ''/'' @ project_name @ ''/.icie'')
                       \<lparr>task_url = task_url\<rparr>]) = Inr ()" and
    conf: "conf_load_reply e (h4 @ [EvMnfstSave (os_homedir e @ ''/'' @ project_name @ ''/.icie'')
                       \<lparr>task_url = task_url\<rparr>, EvConfLoad]) = Inr config" and
    cp: "copy_reply e (h4 @ [EvMnfstSave (os_homedir e @ ''/'' @ project_name @ ''/.icie'')
                       \<lparr>task_url = task_url\<rparr>,
                    EvConfLoad,
                    EvCopy (path (template config))
                      (os_homedir e @ ''/'' @ project_name @ ''/main.cpp'')]) = Inr ()" and
    opn: "openFolder_reply e h' = Inr ()" and
    fin: "h' = h4 @ [EvMnfstSave (os_homedir e @ ''/'' @ project_name @ ''/.icie'')
                       \<lparr>task_url = task_url\<rparr>,
                    EvConfLoad,
                    EvCopy (path (template config))
                      (os_homedir e @ ''/'' @ project_name @ ''/main.cpp''),
                    EvOpenFolder (os_homedir e @ ''/'' @ project_name) False]"
    by (auto simp add: triggerInit_def await_Inr Let_def afs_mkdir_def mnfst_save_def conf_load_def
        afs_copy_def vscode_openFolder_def external_Inr resolve_def source_def)
  let ?d = "os_homedir e @ ''/'' @ project_name"
  from url have h1: "h1 = h @ [url_prompt]"
    and answer: "showInputBox_reply e (h @ [url_prompt]) = Some task_url"
    by (auto simp add: askDescriptionURL_def inputbox_run url_prompt_def split: option.splits)
  from randomProjectName_Inr [OF name] obtain naming where
    h2: "h2 = h1 @ naming @ [EvExists ?d]" and naming: "list_all is_naming naming"
    and free: "exists_reply e h2 = Inr False"
    by blast
  let ?h2 = "h @ [url_prompt] @ naming @ [EvExists ?d]"
  have h2': "h2 = ?h2" using h1 h2 by simp
  let ?h3 = "?h2 @ [EvMkdir ?d] @ [EvCiInit task_url ?d]"
  from init have init': "ci_init e task_url ?d (respondAuthreq e) (?h2 @ [EvMkdir ?d]) = (Inr (), h4)"
    by (simp only: h2')
  obtain auth where h4: "h4 = ?h3 @ auth"
    and auth: "list_all (\<lambda>ev. is_prompt ev \<or> is_auth_response ev) auth"
    and challenge: "case init_authreq e ?h3 of
        None \<Rightarrow> auth = []
      | Some authreq \<Rightarrow>
          (\<exists>u p. auth = [username_prompt authreq, password_prompt authreq u,
                         EvAuthResponse \<lparr>username = u, password = p\<rparr>])"
    and replied: "init_reply e (?h3 @ auth) = Inr ()"
  proof (cases "init_authreq e ?h3")
    case None
    with init' have "h4 = ?h3 @ []" "init_reply e (?h3 @ []) = Inr ()"
      by (auto simp add: ci_init_Inr)
    with None that [of "[]"] show ?thesis by simp
  next
    case (Some authreq)
    with init' obtain u p where
      "h4 = ?h3 @ [username_prompt authreq, password_prompt authreq u,
                   EvAuthResponse \<lparr>username = u, password = p\<rparr>]"
      "init_reply e (?h3 @ [username_prompt authreq, password_prompt authreq u,
                   EvAuthResponse \<lparr>username = u, password = p\<rparr>]) = Inr ()"
      by (auto simp add: ci_init_Inr)
    with Some that [of "[username_prompt authreq, password_prompt authreq u,
                   EvAuthResponse \<lparr>username = u, password = p\<rparr>]"]
    show ?thesis by (simp add: username_prompt_def password_prompt_def)
  qed
  have 1: "h' = h @ [url_prompt] @ naming @ [EvExists ?d] @ [EvMkdir ?d]
            @ [EvCiInit task_url ?d] @ auth
            @ [EvMnfstSave (?d @ ''/.icie'') \<lparr>task_url = task_url\<rparr>]
            @ [EvConfLoad, EvCopy (path (template config)) (source \<lparr>base = ?d\<rparr>)]
            @ [EvOpenFolder ?d False]"
    using h2' h4 fin by (simp add: source_def)
  have 2: "exists_reply e ?h2 = Inr False"
    using free h2' by simp
  have 3: "randomProjectName e 5 (h @ [url_prompt]) = (Inr project_name, ?h2)"
    using name h1 h2' by simp
  have 4: "mkdir_reply e (h @ [url_prompt] @ naming @ [EvExists ?d] @ [EvMkdir ?d]) = Inr ()"
    using mk h2' by simp
  have 5: "mnfst_save_reply e (h @ [url_prompt] @ naming @ [EvExists ?d] @ [EvMkdir ?d]
            @ [EvCiInit task_url ?d] @ auth
            @ [EvMnfstSave (?d @ ''/.icie'') \<lparr>task_url = task_url\<rparr>]) = Inr ()"
    using sv h4 by simp
  have 6: "conf_load_reply e (h @ [url_prompt] @ naming @ [EvExists ?d] @ [EvMkdir ?d]
            @ [EvCiInit task_url ?d] @ auth
            @ [EvMnfstSave (?d @ ''/.icie'') \<lparr>task_url = task_url\<rparr>]
            @ [EvConfLoad]) = Inr config"
    using conf h4 by simp
  have 7: "copy_reply e (h @ [url_prompt] @ naming @ [EvExists ?d] @ [EvMkdir ?d]
            @ [EvCiInit task_url ?d] @ auth
            @ [EvMnfstSave (?d @ ''/.icie'') \<lparr>task_url = task_url\<rparr>]
            @ [EvConfLoad, EvCopy (path (template config)) (source \<lparr>base = ?d\<rparr>)]) = Inr ()"
    using cp h4 by (simp add: source_def)
  have 8: "init_reply e (h @ [url_prompt] @ naming @ [EvExists ?d] @ [EvMkdir ?d]
            @ [EvCiInit task_url ?d] @ auth) = Inr ()"
    using replied by simp
  have 9: "case init_authreq e (h @ [url_prompt] @ naming @ [EvExists ?d] @ [EvMkdir ?d]
            @ [EvCiInit task_url ?d]) of
        None \<Rightarrow> auth = []
      | Some authreq \<Rightarrow>
          (\<exists>u p. auth = [username_prompt authreq, password_prompt authreq u,
                         EvAuthResponse \<lparr>username = u, password = p\<rparr>])"
    using challenge by simp
  show ?thesis
    apply (rule exI [of _ task_url])
    apply (rule exI [of _ project_name])
    apply (rule exI [of _ ?d])
    apply (rule exI [of _ naming])
    apply (rule exI [of _ auth])
    apply (rule exI [of _ config])
    apply (intro conjI refl answer 1 2 3 4 5 6 7 8 9 naming auth opn)
    done
qed

theorem triggerInit_order_witness:
  "triggerInit calm_env [] = (Inr (), calm_init_history) \<and>
   (\<exists>task_url project_name project_dir naming auth (config :: config).
     project_dir = os_homedir calm_env @ ''/'' @ project_name \<and>
     showInputBox_reply calm_env ([] @ [url_prompt]) = Some task_url \<and>
     exists_reply calm_env ([] @ [url_prompt] @ naming @ [EvExists project_dir]) = Inr False \<and>
     calm_init_history = [] @ [url_prompt] @ naming @ [EvExists project_dir]
            @ [EvMkdir project_dir]
            @ [EvCiInit task_url project_dir] @ auth
            @ [EvMnfstSave (project_dir @ ''/.icie'') \<lparr>task_url = task_url\<rparr>]
            @ [EvConfLoad, EvCopy (path (template config)) (source \<lparr>base = project_dir\<rparr>)]
            @ [EvOpenFolder project_dir False] \<and>
     list_all is_naming naming \<and>
     list_all (\<lambda>ev. is_prompt ev \<or> is_auth_response ev) auth \<and>
     randomProjectName calm_env 5 ([] @ [url_prompt]) =
       (Inr project_name, [] @ [url_prompt] @ naming @ [EvExists project_dir]) \<and>
     mkdir_reply calm_env ([] @ [url_prompt] @ naming @ [EvExists project_dir]
            @ [EvMkdir project_dir]) = Inr () \<and>
     (case init_authreq calm_env ([] @ [url_prompt] @ naming @ [EvExists project_dir]
            @ [EvMkdir project_dir]
            @ [EvCiInit task_url project_dir]) of
        None \<Rightarrow> auth = []
      | Some authreq \<Rightarrow>
          (\<exists>u p. auth = [username_prompt authreq, password_prompt authreq u,
                         EvAuthResponse \<lparr>username = u, password = p\<rparr>])) \<and>
     init_reply calm_env ([] @ [url_prompt] @ naming @ [EvExists project_dir]
            @ [EvMkdir project_dir]
            @ [EvCiInit task_url project_dir] @ auth) = Inr () \<and>
     mnfst_save_reply calm_env ([] @ [url_prompt] @ naming @ [EvExists project_dir]
            @ [EvMkdir project_dir]
            @ [EvCiInit task_url project_dir] @ auth
            @ [EvMnfstSave (project_dir @ ''/.icie'') \<lparr>task_url = task_url\<rparr>]) = Inr () \<and>
     conf_load_reply calm_env ([] @ [url_prompt] @ naming @ [EvExists project_dir]
            @ [EvMkdir project_dir]
            @ [EvCiInit task_url project_dir] @ auth
            @ [EvMnfstSave (project_dir @ ''/.icie'') \<lparr>task_url = task_url\<rparr>]
            @ [EvConfLoad]) = Inr config \<and>
     copy_reply calm_env ([] @ [url_prompt] @ naming @ [EvExists project_dir]
            @ [EvMkdir project_dir]
            @ [EvCiInit task_url project_dir] @ auth
            @ [EvMnfstSave (project_dir @ ''/.icie'') \<lparr>task_url = task_url\<rparr>]
            @ [EvConfLoad, EvCopy (path (template config)) (source \<lparr>base = project_dir\<rparr>)])
       = Inr () \<and>
     openFolder_reply calm_env calm_init_history = Inr ())"
proof -
  have run: "triggerInit calm_env [] = (Inr (), calm_init_history)"
    by (simp add: calm_init_history_def eval_nat_numeral sample_defs run_defs)
  from run triggerInit_order [OF run] show ?thesis by (rule conjI)
qed

subsection \<open>Dismissed prompts\<close>

text \<open>
  C9. A dismissed input box makes \<open>inputbox\<close> fail with the error \<open>did not get input on
  input box\<close>; it does not return an empty string. Text the user entered, the empty text
  included, is returned. The step that asked stops there: an init whose URL prompt is
  dismissed does nothing after the prompt, and the authentication callback stops at the
  prompt that was dismissed, without asking for the password when it was the username's.
\<close>

theorem prompt_cancellation:
  "(showInputBox_reply e (h @ [EvShowInputBox options]) = None \<longrightarrow>
      inputbox e options h = (Inl cancelled, h @ [EvShowInputBox options])) \<and>
   (showInputBox_reply e (h @ [EvShowInputBox options]) = Some s \<longrightarrow>
      inputbox e options h = (Inr s, h @ [EvShowInputBox options])) \<and>
   (showInputBox_reply e (h @ [EvShowInputBox options]) = Some [] \<longrightarrow>
      inputbox e options h = (Inr [], h @ [EvShowInputBox options])) \<and>
   (showInputBox_reply e (h @ [url_prompt]) = None \<longrightarrow>
      triggerInit e h = (Inl cancelled, h @ [url_prompt])) \<and>
   (showInputBox_reply e (h @ [username_prompt authreq]) = None \<longrightarrow>
      respondAuthreq e authreq h = (Inl cancelled, h @ [username_prompt authreq])) \<and>
   (showInputBox_reply e (h @ [username_prompt authreq]) = Some u \<and>
    showInputBox_reply e (h @ [username_prompt authreq, password_prompt authreq u]) = None \<longrightarrow>
      respondAuthreq e authreq h =
        (Inl cancelled, h @ [username_prompt authreq, password_prompt authreq u]))"
proof -
  have "showInputBox_reply e (h @ [url_prompt]) = None \<longrightarrow>
      triggerInit e h = (Inl cancelled, h @ [url_prompt])"
    by (simp add: triggerInit_def askDescriptionURL_def inputbox_run url_prompt_def await_def)
  then show ?thesis
    by (simp add: inputbox_run respondAuthreq_run Let_def)
qed

theorem prompt_cancellation_witness:
  "inputbox dismissing_env \<lparr>opt_prompt = ''Task description URL: '', opt_password = False\<rparr> [] =
     (Inl (ThrowError ''did not get input on input box''), [url_prompt]) \<and>
   inputbox silent_env \<lparr>opt_prompt = ''Task description URL: '', opt_password = False\<rparr> [] =
     (Inr [], [url_prompt]) \<and>
   triggerInit dismissing_env [] =
     (Inl (ThrowError ''did not get input on input box''), [url_prompt]) \<and>
   respondAuthreq dismissing_env \<lparr>domain = ''judge.example''\<rparr> [] =
     (Inl (ThrowError ''did not get input on input box''),
      [username_prompt \<lparr>domain = ''judge.example''\<rparr>])"
proof -
  let ?o = "\<lparr>opt_prompt = ''Task description URL: '', opt_password = False\<rparr>"
  let ?rq = "\<lparr>domain = ''judge.example''\<rparr>"
  have none: "showInputBox_reply dismissing_env h = None" for h
    by (simp add: dismissing_env_def sample_defs)
  have empty: "showInputBox_reply silent_env h = Some []" for h
    by (simp add: silent_env_def sample_defs)
  from prompt_cancellation [of dismissing_env "[]" ?o _ ?rq] none
  have 1: "inputbox dismissing_env ?o [] = (Inl cancelled, [] @ [EvShowInputBox ?o])"
    and 3: "triggerInit dismissing_env [] = (Inl cancelled, [] @ [url_prompt])"
    and 4: "respondAuthreq dismissing_env ?rq [] = (Inl cancelled, [] @ [username_prompt ?rq])"
    by blast+
  from prompt_cancellation [of silent_env "[]" ?o "[]"] empty
  have 2: "inputbox silent_env ?o [] = (Inr [], [] @ [EvShowInputBox ?o])"
    by blast
  from 1 2 3 4 show ?thesis by (simp add: cancelled_def url_prompt_def)
qed

subsection \<open>The authentication round trip\<close>



subsection \<open>The password prompt\<close>

text \<open>
  C8. Both prompts of the authentication callback go through the same \<open>inputbox\<close>
  helper with an options object that holds the prompt text only: the input box for the
  password is opened without the option that masks the input, like the one for the
  username.
\<close>

theorem password_prompt_not_masked:
  "respondAuthreq calm_env \<lparr>domain = ''judge.example''\<rparr> [] =
     (Inr \<lparr>username = ''alice'', password = ''s3cret''\<rparr>,
      [EvShowInputBox \<lparr>opt_prompt = ''Username at judge.example'', opt_password = False\<rparr>,
       EvShowInputBox \<lparr>opt_prompt = ''Password for alice at judge.example'',
                       opt_password = False\<rparr>])"
  by (simp add: sample_defs run_defs)

subsection \<open>Frames out of chunks\<close>

text \<open>
  C3. Documents are JSON objects and arrays, each followed by white space (a newline on
  the wire, possibly nothing). However their bytes are cut into chunks, a bridge whose
  decoder starts empty calls back with exactly the documents, in order, and ends with
  an empty buffer. When the bytes end inside a document, the documents before it are
  delivered, nothing is delivered for the truncated one, and what has arrived of it stays
  in the buffer; the chunks that complete it then deliver exactly that document.
\<close>

theorem frame_round_trip:
  "((\<forall>(d, w) \<in> set docs. json_document d \<and> json_ws w) \<and> concat chunks = wire docs \<longrightarrow>
      recv (new_Logic extensionPath) (map Buffer chunks) =
        Inr (map fst docs, new_Logic extensionPath)) \<and>
   ((\<forall>(d, w) \<in> set docs. json_document d \<and> json_ws w) \<and> json_partial p \<and>
    concat chunks = wire docs @ p \<longrightarrow>
      recv (new_Logic extensionPath) (map Buffer chunks) =
        Inr (map fst docs, (new_Logic extensionPath)\<lparr>parser := \<lparr>buffer = p\<rparr>\<rparr>)) \<and>
   (json_document (p @ q) \<and> q \<noteq> [] \<and> json_ws w \<and> concat chunks = q @ w \<longrightarrow>
      recv (this\<lparr>parser := \<lparr>buffer = p\<rparr>\<rparr>) (map Buffer chunks) =
        Inr ([p @ q], this\<lparr>parser := \<lparr>buffer = []\<rparr>\<rparr>))"
proof (intro conjI impI)
  let ?new = "new_Logic extensionPath"
  have new: "frames (buffer (parser ?new)) = ([], buffer (parser ?new))"
    by (simp add: new_Logic_def new_Parser_def frames_Nil)
  note run = recv_buffers [OF new, of chunks]
  {
    assume "(\<forall>(d, w) \<in> set docs. json_document d \<and> json_ws w) \<and> concat chunks = wire docs"
    then have "frames (buffer (parser ?new) @ concat chunks) = (map fst docs, [])"
      using frames_wire [of docs "[]"] by (simp add: new_Logic_def new_Parser_def frames_Nil)
    then show "recv ?new (map Buffer chunks) = Inr (map fst docs, ?new)"
      unfolding run by (simp add: new_Logic_def new_Parser_def)
  }
  {
    assume "(\<forall>(d, w) \<in> set docs. json_document d \<and> json_ws w) \<and> json_partial p \<and>
      concat chunks = wire docs @ p"
    then have "frames (buffer (parser ?new) @ concat chunks) = (map fst docs, p)"
      using frames_wire [of docs p] by (simp add: new_Logic_def new_Parser_def frames_partial)
    then show "recv ?new (map Buffer chunks) =
        Inr (map fst docs, ?new\<lparr>parser := \<lparr>buffer = p\<rparr>\<rparr>)"
      unfolding run by (simp add: new_Logic_def new_Parser_def)
  }
  {
    assume *: "json_document (p @ q) \<and> q \<noteq> [] \<and> json_ws w \<and> concat chunks = q @ w"
    let ?bridge = "this\<lparr>parser := \<lparr>buffer = p\<rparr>\<rparr>"
    from * have "json_partial p" by (auto simp add: json_partial_def)
    then have settled: "frames (buffer (parser ?bridge)) = ([], buffer (parser ?bridge))"
      by (simp add: frames_partial)
    from * have "frames ((p @ q) @ w) = ([p @ q], [])"
      using frames_document [of "p @ q" w] frames_ws [of w "[]"] by (simp add: frames_Nil)
    with * have "frames (buffer (parser ?bridge) @ concat chunks) = ([p @ q], [])"
      by simp
    then show "recv ?bridge (map Buffer chunks) = Inr ([p @ q], this\<lparr>parser := \<lparr>buffer = []\<rparr>\<rparr>)"
      unfolding recv_buffers [OF settled, of chunks] by simp
  }
qed

theorem frame_round_trip_witness:
  \<open>recv (new_Logic ''/ext'') (map Buffer sample_chunks) =
     Inr ([status_doc, list_doc], new_Logic ''/ext'') \<and>
   recv (new_Logic ''/ext'') (map Buffer [''{"tag":"sta'']) =
     Inr ([], (new_Logic ''/ext'')\<lparr>parser := \<lparr>buffer = ''{"tag":"sta''\<rparr>\<rparr>) \<and>
   recv ((new_Logic ''/ext'')\<lparr>parser := \<lparr>buffer = ''{"tag":"sta''\<rparr>\<rparr>)
       (map Buffer [''tus","message":null}'', newline]) =
     Inr ([status_doc], (new_Logic ''/ext'')\<lparr>parser := \<lparr>buffer = []\<rparr>\<rparr>)\<close>
proof -
  let ?docs = "[(status_doc, newline), (list_doc, newline)]"
  let ?p = \<open>''{"tag":"sta''\<close>
  let ?q = \<open>''tus","message":null}''\<close>
  have nl: "json_ws newline" by (simp add: json_ws_def newline_def is_ws_def)
  have docs: "\<forall>(d, w) \<in> set ?docs. json_document d \<and> json_ws w"
    by (simp add: status_doc_valid list_doc_valid nl)
  have whole: "json_document (?p @ ?q)"
    using status_doc_valid by (simp add: status_doc_def)
  then have partial: "json_partial ?p"
    unfolding json_partial_def by (intro exI [of _ ?q]) simp
  have chunks: "concat sample_chunks = wire ?docs"
    by (simp add: sample_chunks_def wire_def status_doc_def list_doc_def newline_def)
  have 1: "recv (new_Logic ''/ext'') (map Buffer sample_chunks) =
      Inr (map fst ?docs, new_Logic ''/ext'')"
    by (rule frame_round_trip [THEN conjunct1, rule_format]) (intro conjI docs chunks)
  let ?none = "[] :: (string \<times> string) list"
  have none: "\<forall>(d, w) \<in> set ?none. json_document d \<and> json_ws w" by simp
  have first: "concat [?p] = wire ?none @ ?p" by (simp add: wire_def)
  have 2: "recv (new_Logic ''/ext'') (map Buffer [?p]) =
      Inr (map fst ?none, (new_Logic ''/ext'')\<lparr>parser := \<lparr>buffer = ?p\<rparr>\<rparr>)"
    by (rule frame_round_trip [THEN conjunct2, THEN conjunct1, rule_format])
      (intro conjI none partial first)
  have rest: "?q \<noteq> []" by simp
  have second: "concat [?q, newline] = ?q @ newline" by simp
  have 3:
    "recv ((new_Logic ''/ext'')\<lparr>parser := \<lparr>buffer = ?p\<rparr>\<rparr>) (map Buffer [?q, newline]) =
      Inr ([?p @ ?q], (new_Logic ''/ext'')\<lparr>parser := \<lparr>buffer = []\<rparr>\<rparr>)"
    by (rule frame_round_trip [where w = newline, THEN conjunct2, THEN conjunct2, rule_format])
      (intro conjI whole rest nl second)
  from 1 2 3 show ?thesis by (simp add: status_doc_def)
qed

end
